theory Spec2Isabelle
  imports Complex_Main "HOL-Library.Sublist"
begin

section \<open>JavaScript strings\<close>

text \<open>
  A JavaScript string is a sequence of UTF-16 code units. A code unit is modelled as a
  natural number and a string as the list of its code units, so that \<open>length\<close> is
  \<open>.length\<close> and the escapes of JSON (\<open>\uXXXX\<close>) have a value. \<open>js\<close> turns an ASCII
  literal of Isabelle into such a string.
\<close>

type_synonym jsstring = "nat list"

definition js :: "string \<Rightarrow> jsstring" where
  "js s = map of_char s"

text \<open>
  \<open>String.prototype.trim\<close> removes WhiteSpace and LineTerminator code units from both ends
  (ECMA-262: TAB, VT, FF, SP, NBSP, ZWNBSP, the category Zs, LF, CR, LS, PS).
\<close>

definition is_ws :: "nat \<Rightarrow> bool" where
  "is_ws c = (c \<in> {9, 10, 11, 12, 13, 32, 160, 5760, 8232, 8233, 8239, 8287, 12288, 65279}
      \<or> (8192 \<le> c \<and> c \<le> 8202))"

definition trim :: "jsstring \<Rightarrow> jsstring" where
  "trim s = rev (dropWhile is_ws (rev (dropWhile is_ws s)))"

definition startsWith :: "jsstring \<Rightarrow> jsstring \<Rightarrow> bool" where
  "startsWith s p = (take (length p) s = p)"

text \<open>\<open>s.indexOf(c)\<close> for a single code unit: \<open>None\<close> is JavaScript's \<open>-1\<close>.\<close>

fun indexOf :: "jsstring \<Rightarrow> nat \<Rightarrow> nat option" where
  "indexOf [] c = None"
| "indexOf (x # xs) c = (if x = c then Some 0 else map_option Suc (indexOf xs c))"

text \<open>\<open>s.split('\n')\<close>: always at least one piece; the pieces hold no newline.\<close>

fun split_lines :: "jsstring \<Rightarrow> jsstring list" where
  "split_lines [] = [[]]"
| "split_lines (x # xs) =
     (if x = 10 then [] # split_lines xs
      else (case split_lines xs of l # ls \<Rightarrow> (x # l) # ls | [] \<Rightarrow> [[x]]))"

text \<open>Decimal digits of a natural number, as a template literal prints an integer.\<close>

fun digits :: "nat \<Rightarrow> jsstring" where
  "digits n = (if n < 10 then [48 + n] else digits (n div 10) @ [48 + n mod 10])"

text \<open>
  The pattern \<open>/service_tier_capacity_exceeded/i\<close> and the other patterns of the
  repository are ASCII words matched anywhere in the text, ignoring case. Without the
  \<open>u\<close> flag a code unit above 127 never matches an ASCII one, so ignoring case is
  comparing after mapping \<open>a\<close> .. \<open>z\<close> to upper case.
\<close>

definition upper :: "nat \<Rightarrow> nat" where
  "upper c = (if 97 \<le> c \<and> c \<le> 122 then c - 32 else c)"

fun test_i :: "jsstring \<Rightarrow> jsstring \<Rightarrow> bool" where
  "test_i pat [] = (pat = [])"
| "test_i pat (x # xs) =
     (map upper (take (length pat) (x # xs)) = map upper pat \<or> test_i pat xs)"

section \<open>JSON values\<close>

text \<open>
  A number is kept as the text \<open>Number.prototype.toString\<close> gives for it (the text of
  zero is \<open>0\<close>); the conversion of a numeric literal to that text is floating-point
  arithmetic of the platform and a parameter of \<open>JSON_parse\<close> below. An object is the list
  of its members in source order.
\<close>

datatype json =
    JNull
  | JBool bool
  | JNum jsstring
  | JStr jsstring
  | JArr "json list"
  | JObj "(jsstring \<times> json) list"

subsection \<open>JSON.stringify\<close>

definition hex_digit :: "nat \<Rightarrow> nat" where
  "hex_digit d = (if d < 10 then 48 + d else 87 + d)"

definition unicode_escape :: "nat \<Rightarrow> jsstring" where
  "unicode_escape c =
     [92, 117, hex_digit (c div 4096 mod 16), hex_digit (c div 256 mod 16),
      hex_digit (c div 16 mod 16), hex_digit (c mod 16)]"

definition is_lead :: "nat \<Rightarrow> bool" where
  "is_lead c = (55296 \<le> c \<and> c \<le> 56319)"

definition is_trail :: "nat \<Rightarrow> bool" where
  "is_trail c = (56320 \<le> c \<and> c \<le> 57343)"

definition escape_unit :: "nat \<Rightarrow> jsstring" where
  "escape_unit c =
     (if c = 8 then [92, 98] else if c = 9 then [92, 116] else if c = 10 then [92, 110]
      else if c = 12 then [92, 102] else if c = 13 then [92, 114]
      else if c = 34 then [92, 34] else if c = 92 then [92, 92]
      else if c < 32 then unicode_escape c else [c])"

text \<open>QuoteJSONString without the quotes: a surrogate outside a pair is escaped.\<close>

fun quote_body :: "jsstring \<Rightarrow> jsstring" where
  "quote_body [] = []"
| "quote_body [c] = (if is_lead c \<or> is_trail c then unicode_escape c else escape_unit c)"
| "quote_body (c # d # cs) =
     (if is_lead c \<and> is_trail d then c # d # quote_body cs
      else if is_lead c \<or> is_trail c then unicode_escape c @ quote_body (d # cs)
      else escape_unit c @ quote_body (d # cs))"

definition quote :: "jsstring \<Rightarrow> jsstring" where
  "quote s = [34] @ quote_body s @ [34]"

fun join :: "jsstring \<Rightarrow> jsstring list \<Rightarrow> jsstring" where
  "join sep [] = []"
| "join sep [x] = x"
| "join sep (x # y # ys) = x @ sep @ join sep (y # ys)"

fun stringify :: "json \<Rightarrow> jsstring" where
  "stringify JNull = js ''null''"
| "stringify (JBool b) = (if b then js ''true'' else js ''false'')"
| "stringify (JNum t) = t"
| "stringify (JStr s) = quote s"
| "stringify (JArr xs) = [91] @ join [44] (map stringify xs) @ [93]"
| "stringify (JObj ms) =
     [123] @ join [44] (map (\<lambda>m. quote (fst m) @ [58] @ stringify (snd m)) ms) @ [125]"

text \<open>
  An object literal handed to \<open>JSON.stringify\<close>: a member whose value is
  \<open>undefined\<close> (\<open>None\<close>) is left out.
\<close>

definition object :: "(string \<times> json option) list \<Rightarrow> json" where
  "object ms = JObj (concat (map (\<lambda>m. case snd m of None \<Rightarrow> [] | Some v \<Rightarrow> [(js (fst m), v)]) ms))"

subsection \<open>JSON.parse\<close>

text \<open>
  \<open>JSON.parse\<close> is a function of the platform; the model follows the JSON grammar of
  ECMA-404: a lexer for the tokens and a parser with an explicit stack of the containers
  that are open. \<open>None\<close> is the \<open>SyntaxError\<close> it throws.
\<close>

datatype token =
    TLBrace | TRBrace | TLBrack | TRBrack | TColon | TComma
  | TString jsstring | TNumber jsstring | TTrue | TFalse | TNull

definition is_digit :: "nat \<Rightarrow> bool" where
  "is_digit c = (48 \<le> c \<and> c \<le> 57)"

definition hex_value :: "nat \<Rightarrow> nat option" where
  "hex_value c =
     (if 48 \<le> c \<and> c \<le> 57 then Some (c - 48)
      else if 65 \<le> c \<and> c \<le> 70 then Some (c - 55)
      else if 97 \<le> c \<and> c \<le> 102 then Some (c - 87)
      else None)"

definition hex4 :: "nat \<Rightarrow> nat \<Rightarrow> nat \<Rightarrow> nat \<Rightarrow> nat option" where
  "hex4 a b c d =
     (case (hex_value a, hex_value b, hex_value c, hex_value d) of
        (Some p, Some q, Some r, Some s) \<Rightarrow> Some (4096 * p + 256 * q + 16 * r + s)
      | _ \<Rightarrow> None)"

definition unescape :: "nat \<Rightarrow> nat option" where
  "unescape e =
     (if e = 34 \<or> e = 92 \<or> e = 47 then Some e
      else if e = 98 then Some 8 else if e = 102 then Some 12 else if e = 110 then Some 10
      else if e = 114 then Some 13 else if e = 116 then Some 9 else None)"

text \<open>The body of a string after its opening quote: the string and what follows it.\<close>

fun lex_string :: "jsstring \<Rightarrow> jsstring \<Rightarrow> (jsstring \<times> jsstring) option" where
  "lex_string acc [] = None"
| "lex_string acc (c # cs) =
     (if c = 34 then Some (rev acc, cs)
      else if c = 92 then
        (case cs of
           [] \<Rightarrow> None
         | e # es \<Rightarrow>
             if e = 117 then
               (case es of
                  h1 # h2 # h3 # h4 # rest \<Rightarrow>
                    (case hex4 h1 h2 h3 h4 of
                       None \<Rightarrow> None
                     | Some u \<Rightarrow> lex_string (u # acc) rest)
                | _ \<Rightarrow> None)
             else (case unescape e of None \<Rightarrow> None | Some u \<Rightarrow> lex_string (u # acc) es))
      else if c < 32 then None
      else lex_string (c # acc) cs)"

text \<open>
  A numeric literal: \<open>-? (0 | [1-9][0-9]*) (. [0-9]+)? ([eE] [+-]? [0-9]+)?\<close>. The lexer
  takes the longest run of the characters a number is made of and checks it.
\<close>

definition is_numchar :: "nat \<Rightarrow> bool" where
  "is_numchar c = (is_digit c \<or> c = 43 \<or> c = 45 \<or> c = 46 \<or> c = 69 \<or> c = 101)"

definition valid_exp :: "jsstring \<Rightarrow> bool" where
  "valid_exp e =
     (let d = (if e \<noteq> [] \<and> (hd e = 43 \<or> hd e = 45) then tl e else e)
      in d \<noteq> [] \<and> list_all is_digit d)"

definition valid_tail :: "jsstring \<Rightarrow> bool" where
  "valid_tail t =
     (if t = [] then True
      else if hd t = 46 then
        (let f = takeWhile is_digit (tl t); r = dropWhile is_digit (tl t)
         in f \<noteq> [] \<and> (r = [] \<or> ((hd r = 69 \<or> hd r = 101) \<and> valid_exp (tl r))))
      else (hd t = 69 \<or> hd t = 101) \<and> valid_exp (tl t))"

definition valid_number :: "jsstring \<Rightarrow> bool" where
  "valid_number s =
     (let u = (if s \<noteq> [] \<and> hd s = 45 then tl s else s);
          i = takeWhile is_digit u
      in i \<noteq> [] \<and> (length i = 1 \<or> hd i \<noteq> 48) \<and> valid_tail (dropWhile is_digit u))"

lemma lex_string_length:
  "lex_string acc s = Some (r, rest) \<Longrightarrow> length rest < length s"
proof (induction acc s rule: lex_string.induct)
  case (1 acc)
  then show ?case by simp
next
  case (2 acc c cs)
  show ?case
  proof (cases "c = 34")
    case True
    with "2.prems" show ?thesis by simp
  next
    case q: False
    show ?thesis
    proof (cases "c = 92")
      case False
      with q "2.prems" have "c \<ge> 32" and "lex_string (c # acc) cs = Some (r, rest)"
        by (simp_all split: if_splits)
      with "2.IH"(3) [OF q False] show ?thesis by simp
    next
      case b: True
      show ?thesis
      proof (cases cs)
        case Nil
        with q b "2.prems" show ?thesis by simp
      next
        case (Cons e es)
        show ?thesis
        proof (cases "e = 117")
          case False
          with q b Cons "2.prems" obtain u where u: "unescape e = Some u"
              and l: "lex_string (u # acc) es = Some (r, rest)"
            by (auto split: option.splits)
          from "2.IH"(2) [OF q b Cons False u] l have "length rest < length es" by simp
          with Cons show ?thesis by simp
        next
          case True
          with q b Cons "2.prems" obtain h1 h2 h3 h4 tl' u where es: "es = h1 # h2 # h3 # h4 # tl'"
              and u: "hex4 h1 h2 h3 h4 = Some u"
              and l: "lex_string (u # acc) tl' = Some (r, rest)"
            by (auto split: list.splits option.splits)
          from "2.IH"(1) [OF q b Cons True] es u l have "length rest < length tl'" by simp
          with Cons es show ?thesis by simp
        qed
      qed
    qed
  qed
qed

function lex :: "(jsstring \<Rightarrow> jsstring) \<Rightarrow> jsstring \<Rightarrow> token list option" where
  "lex num [] = Some []"
| "lex num (c # cs) =
     (if c = 32 \<or> c = 9 \<or> c = 10 \<or> c = 13 then lex num cs
      else if c = 123 then map_option (Cons TLBrace) (lex num cs)
      else if c = 125 then map_option (Cons TRBrace) (lex num cs)
      else if c = 91 then map_option (Cons TLBrack) (lex num cs)
      else if c = 93 then map_option (Cons TRBrack) (lex num cs)
      else if c = 58 then map_option (Cons TColon) (lex num cs)
      else if c = 44 then map_option (Cons TComma) (lex num cs)
      else if c = 34 then
        (case lex_string [] cs of
           None \<Rightarrow> None
         | Some (s, rest) \<Rightarrow> map_option (Cons (TString s)) (lex num rest))
      else if c = 45 \<or> is_digit c then
        (if valid_number (c # takeWhile is_numchar cs)
         then map_option (Cons (TNumber (num (c # takeWhile is_numchar cs))))
                (lex num (dropWhile is_numchar cs))
         else None)
      else if c = 116 \<and> take 3 cs = js ''rue'' then map_option (Cons TTrue) (lex num (drop 3 cs))
      else if c = 102 \<and> take 4 cs = js ''alse'' then map_option (Cons TFalse) (lex num (drop 4 cs))
      else if c = 110 \<and> take 3 cs = js ''ull'' then map_option (Cons TNull) (lex num (drop 3 cs))
      else None)"
  by pat_completeness auto
termination
proof (relation "measure (\<lambda>(num, s). length s)")
  show "wf (measure (\<lambda>(num, s). length s))" by simp
next
  fix num :: "jsstring \<Rightarrow> jsstring" and c :: nat and cs :: jsstring and x2 x y
  assume "lex_string [] cs = Some x2" and "(x, y) = x2"
  then have "length y < length cs" using lex_string_length [of "[]" cs x y] by simp
  then show "((num, y), num, c # cs) \<in> measure (\<lambda>(num, s). length s)" by simp
next
  fix num :: "jsstring \<Rightarrow> jsstring" and c :: nat and cs :: jsstring
  have "length (dropWhile is_numchar cs) \<le> length cs" by (rule length_dropWhile_le)
  then show "((num, dropWhile is_numchar cs), num, c # cs) \<in> measure (\<lambda>(num, s). length s)"
    by simp
qed simp_all

text \<open>The containers that are open: an array with its elements so far, newest first, or
  an object with its members so far, newest first, and the key whose value is being read.\<close>

datatype frame = InArr "json list" | InObj "(jsstring \<times> json) list" jsstring

fun parse_value :: "frame list \<Rightarrow> token list \<Rightarrow> json option"
  and parse_member :: "(jsstring \<times> json) list \<Rightarrow> frame list \<Rightarrow> token list \<Rightarrow> json option"
  and parse_after :: "json \<Rightarrow> frame list \<Rightarrow> token list \<Rightarrow> json option" where
  "parse_value stk [] = None"
| "parse_value stk (t # ts) =
     (case t of
        TString s \<Rightarrow> parse_after (JStr s) stk ts
      | TNumber n \<Rightarrow> parse_after (JNum n) stk ts
      | TTrue \<Rightarrow> parse_after (JBool True) stk ts
      | TFalse \<Rightarrow> parse_after (JBool False) stk ts
      | TNull \<Rightarrow> parse_after JNull stk ts
      | TLBrack \<Rightarrow>
          (case ts of
             TRBrack # ts' \<Rightarrow> parse_after (JArr []) stk ts'
           | _ \<Rightarrow> parse_value (InArr [] # stk) ts)
      | TLBrace \<Rightarrow>
          (case ts of
             TRBrace # ts' \<Rightarrow> parse_after (JObj []) stk ts'
           | _ \<Rightarrow> parse_member [] stk ts)
      | _ \<Rightarrow> None)"
| "parse_member ms stk (TString k # TColon # ts) = parse_value (InObj ms k # stk) ts"
| "parse_member ms stk _ = None"
| "parse_after v [] ts = (if ts = [] then Some v else None)"
| "parse_after v (InArr es # stk) (TComma # ts) = parse_value (InArr (v # es) # stk) ts"
| "parse_after v (InArr es # stk) (TRBrack # ts) = parse_after (JArr (rev (v # es))) stk ts"
| "parse_after v (InObj ms k # stk) (TComma # ts) = parse_member ((k, v) # ms) stk ts"
| "parse_after v (InObj ms k # stk) (TRBrace # ts) =
     parse_after (JObj (rev ((k, v) # ms))) stk ts"
| "parse_after v _ _ = None"

definition JSON_parse :: "(jsstring \<Rightarrow> jsstring) \<Rightarrow> jsstring \<Rightarrow> json option" where
  "JSON_parse num s = (case lex num s of None \<Rightarrow> None | Some ts \<Rightarrow> parse_value [] ts)"

section \<open>The proxy forwarder: app/api/chat/route.ts\<close>

subsection \<open>Values of the handler\<close>

text \<open>An \<open>Error\<close> object: its \<open>name\<close>, its \<open>message\<close> and the \<open>code\<close> axios may give it.\<close>

record js_error =
  e_name :: jsstring
  e_message :: jsstring
  e_code :: "jsstring option"

text \<open>\<open>String(e)\<close> is \<open>Error.prototype.toString\<close>; \<open>error_text\<close> is \<open>e?.message || String(e)\<close>.\<close>

definition String_error :: "js_error \<Rightarrow> jsstring" where
  "String_error e =
     (if e_name e = [] then e_message e
      else if e_message e = [] then e_name e
      else e_name e @ js '': '' @ e_message e)"

definition error_text :: "js_error \<Rightarrow> jsstring" where
  "error_text e = (if e_message e \<noteq> [] then e_message e else String_error e)"

text \<open>
  A message of the incoming conversation. \<open>None\<close> is a member that is absent or
  \<open>null\<close>; \<open>tool_calls\<close> is the array of pending tool invocations.
\<close>

record chat_message =
  msg_role :: jsstring
  msg_content :: "jsstring option"
  tool_calls :: "json list option"

text \<open>
  The body of the request as \<open>req.json()\<close> gives it, or the error it throws. A member
  that is absent is \<open>None\<close>; \<open>payload_messages\<close> is \<open>None\<close> also when \<open>messages\<close> is not
  an array, \<open>payload_temperature\<close> when \<open>temperature\<close> is not a number.
\<close>

record chat_payload =
  payload_messages :: "chat_message list option"
  payload_model :: "jsstring option"
  payload_temperature :: "jsstring option"

datatype request_json = BadJson js_error | Parsed chat_payload

text \<open>The process environment and the files \<open>fs.existsSync\<close> and \<open>fs.readFileSync\<close> accept.\<close>

record env =
  MISTRAL_API_KEY :: "jsstring option"
  NODE_EXTRA_CA_CERTS :: "jsstring option"
  ALLOW_INSECURE_TLS :: "jsstring option"
  readable :: "jsstring \<Rightarrow> bool"

text \<open>The call of \<open>axios.post\<close>: the URL, the body and the options that vary.\<close>

record completion_request =
  url :: jsstring
  authorization :: jsstring
  body_model :: jsstring
  body_messages :: "chat_message list"
  body_temperature :: jsstring
  body_stream :: bool
  body_safe_prompt :: bool
  rejectUnauthorized :: bool
  ca :: "jsstring option"

text \<open>
  What \<open>axios.post\<close> resolves to (\<open>validateStatus\<close> accepts every status): the status
  and the stream \<open>res.data\<close> as the chunks it will emit, or \<open>None\<close> when it is missing.
\<close>

record upstream_response =
  up_status :: nat
  up_data :: "jsstring list option"

datatype axios_result = Rejects js_error | Resolves upstream_response

text \<open>The \<open>Response\<close> the handler returns: a text, or a stream given by its chunks.\<close>

datatype body = Text jsstring | Stream "jsstring list"

record response =
  status :: nat
  headers :: "(jsstring \<times> jsstring) list"
  body :: body

text \<open>What the handler does to the world, in order.\<close>

datatype effect = Slept nat | Posted completion_request

text \<open>
  The world of one request: \<open>axios_post n r\<close> is the outcome of the call \<open>r\<close> when \<open>n\<close>
  calls came before it, \<open>Math_random n\<close> the \<open>n\<close>-th random number, and \<open>fault_message\<close>
  the message the platform gives the error the \<open>Response\<close> constructor throws.
\<close>

datatype response_fault = StatusOutOfRange nat | NullBodyStatus nat | InvalidHeaderValue jsstring

record world =
  axios_post :: "nat \<Rightarrow> completion_request \<Rightarrow> axios_result"
  Math_random :: "nat \<Rightarrow> real"
  fault_message :: "response_fault \<Rightarrow> jsstring"

record io =
  calls :: nat
  randoms :: nat
  trace :: "effect list"

subsection \<open>The Response constructor\<close>

text \<open>
  \<open>new Response(body, {status, headers})\<close> of the Fetch standard throws a \<open>RangeError\<close>
  for a status outside 200 .. 599 and a \<open>TypeError\<close> for a header value that is not a
  byte string free of NUL, CR and LF once the whitespace at its ends is stripped, and for
  a body given with a null body status. A text body without a content type gets
  \<open>text/plain;charset=UTF-8\<close>.
\<close>

definition null_body_status :: "nat \<Rightarrow> bool" where
  "null_body_status n = (n \<in> {101, 103, 204, 205, 304})"

definition http_ws :: "nat \<Rightarrow> bool" where
  "http_ws c = (c = 9 \<or> c = 10 \<or> c = 13 \<or> c = 32)"

definition normalize_value :: "jsstring \<Rightarrow> jsstring" where
  "normalize_value v = rev (dropWhile http_ws (rev (dropWhile http_ws v)))"

definition valid_header_value :: "jsstring \<Rightarrow> bool" where
  "valid_header_value v = list_all (\<lambda>c. c \<noteq> 0 \<and> c \<noteq> 10 \<and> c \<noteq> 13 \<and> c \<le> 255) v"

definition header :: "response \<Rightarrow> jsstring \<Rightarrow> jsstring option" where
  "header r n = map_of (map (\<lambda>h. (map upper (fst h), snd h)) (headers r)) (map upper n)"

definition make_response :: "body \<Rightarrow> (jsstring \<times> jsstring) list \<Rightarrow> nat \<Rightarrow> response" where
  "make_response b hs st =
     \<lparr>status = st,
      headers = map (\<lambda>h. (fst h, normalize_value (snd h))) hs @
        (case b of
           Text t \<Rightarrow>
             (if js ''CONTENT-TYPE'' \<in> set (map (\<lambda>h. map upper (fst h)) hs) then []
              else [(js ''content-type'', js ''text/plain;charset=UTF-8'')])
         | Stream cs \<Rightarrow> []),
      body = b\<rparr>"

definition thrown :: "world \<Rightarrow> string \<Rightarrow> response_fault \<Rightarrow> js_error" where
  "thrown w n f = \<lparr>e_name = js n, e_message = fault_message w f, e_code = None\<rparr>"

definition new_Response ::
  "world \<Rightarrow> body \<Rightarrow> (jsstring \<times> jsstring) list \<Rightarrow> nat \<Rightarrow> js_error + response" where
  "new_Response w b hs st =
     (if st < 200 \<or> 599 < st then Inl (thrown w ''RangeError'' (StatusOutOfRange st))
      else case List.find (\<lambda>h. \<not> valid_header_value (normalize_value (snd h))) hs of
        Some h \<Rightarrow> Inl (thrown w ''TypeError'' (InvalidHeaderValue (snd h)))
      | None \<Rightarrow>
          if null_body_status st then Inl (thrown w ''TypeError'' (NullBodyStatus st))
          else Inr (make_response b hs st))"

subsection \<open>The handler POST\<close>

text \<open>
  The filter of lines 53 to 58: a message is dropped when its role is \<open>assistant\<close>, its
  content is falsy or trims to the empty string, and it has no tool call.
\<close>

definition is_placeholder :: "chat_message \<Rightarrow> bool" where
  "is_placeholder m =
     (msg_role m = js ''assistant''
      \<and> (case msg_content m of None \<Rightarrow> True | Some c \<Rightarrow> c = [] \<or> trim c = [])
      \<and> (case tool_calls m of None \<Rightarrow> True | Some ts \<Rightarrow> length ts = 0))"

definition filter_messages :: "chat_message list option \<Rightarrow> chat_message list" where
  "filter_messages incoming =
     (case incoming of
        Some ms \<Rightarrow> filter (\<lambda>m. \<not> is_placeholder m) ms
      | None \<Rightarrow> [])"

text \<open>The CA bundle: the first candidate that exists and can be read.\<close>

definition caCandidates :: "env \<Rightarrow> jsstring list" where
  "caCandidates e =
     filter (\<lambda>p. p \<noteq> [])
       ((case NODE_EXTRA_CA_CERTS e of None \<Rightarrow> [] | Some p \<Rightarrow> [p]) @
        [js ''/etc/ssl/cert.pem'',
         js ''/private/etc/ssl/cert.pem'',
         js ''/etc/ssl/certs/ca-certificates.crt'',
         js ''/etc/pki/tls/certs/ca-bundle.crt'',
         js ''/usr/local/etc/openssl@3/cert.pem'',
         js ''/opt/homebrew/etc/openssl@3/cert.pem''])"

text \<open>The constants of the handler that the loop reads.\<close>

record scope =
  api_key :: jsstring
  kept :: "chat_message list"
  temperature :: jsstring
  caPathUsed :: "jsstring option"
  allowInsecure :: bool

definition request_for :: "scope \<Rightarrow> jsstring \<Rightarrow> completion_request" where
  "request_for sc m =
     \<lparr>url = js ''https://api.mistral.ai/v1/chat/completions'',
      authorization = js ''Bearer '' @ api_key sc,
      body_model = m,
      body_messages = kept sc,
      body_temperature = temperature sc,
      body_stream = True,
      body_safe_prompt = True,
      rejectUnauthorized = (\<not> allowInsecure sc),
      ca = caPathUsed sc\<rparr>"

text \<open>The test of line 111, the error body of lines 125 to 131 and the test of line 134.\<close>

definition success_stream :: "upstream_response \<Rightarrow> jsstring list option" where
  "success_stream res =
     (if 200 \<le> up_status res \<and> up_status res < 300 then up_data res else None)"

definition errText :: "upstream_response \<Rightarrow> jsstring" where
  "errText res = (case up_data res of None \<Rightarrow> [] | Some cs \<Rightarrow> concat cs)"

definition is429 :: "upstream_response \<Rightarrow> bool" where
  "is429 res = (up_status res = 429 \<or> test_i (js ''service_tier_capacity_exceeded'') (errText res))"

definition success_headers :: "scope \<Rightarrow> jsstring \<Rightarrow> (jsstring \<times> jsstring) list" where
  "success_headers sc m =
     [(js ''Content-Type'', js ''text/event-stream; charset=utf-8''),
      (js ''Cache-Control'', js ''no-cache, no-transform''),
      (js ''Connection'', js ''keep-alive''),
      (js ''X-Model-Used'', m)] @
     (case caPathUsed sc of
        None \<Rightarrow> []
      | Some p \<Rightarrow> if p = [] then [] else [(js ''X-CA-Used'', p)])"

definition upstream_error_body :: "scope \<Rightarrow> jsstring \<Rightarrow> upstream_response \<Rightarrow> jsstring" where
  "upstream_error_body sc m res =
     js ''Upstream '' @ digits (up_status res) @ js '': '' @ errText res @ [10] @
     stringify (object
       [(''status'', Some (JNum (digits (up_status res)))),
        (''modelTried'', Some (JStr m)),
        (''caPathUsed'', map_option JStr (caPathUsed sc)),
        (''allowInsecure'', Some (JBool (allowInsecure sc)))])"

text \<open>How a step of the loop ends: a \<open>return\<close>, a \<open>throw\<close>, or it goes on.\<close>

datatype flow = Returned response | Thrown js_error | Next

definition construct :: "js_error + response \<Rightarrow> flow" where
  "construct r = (case r of Inl e \<Rightarrow> Thrown e | Inr x \<Rightarrow> Returned x)"

definition sleep_before :: "world \<Rightarrow> nat \<Rightarrow> io \<Rightarrow> io" where
  "sleep_before w attempt s =
     (if attempt > 0 then
        (let base = 200 * 2 ^ (attempt - 1);
             jitter = nat \<lfloor>Math_random w (randoms s) * real base\<rfloor>
         in s\<lparr>randoms := randoms s + 1, trace := trace s @ [Slept (base + jitter)]\<rparr>)
      else s)"

text \<open>The inner loop of lines 88 to 140, from the attempt \<open>attempt\<close> on.\<close>

function attempt_loop :: "world \<Rightarrow> scope \<Rightarrow> jsstring \<Rightarrow> nat \<Rightarrow> io \<Rightarrow> flow \<times> io" where
  "attempt_loop w sc m attempt s =
     (if attempt < 2 then
        (let s1 = sleep_before w attempt s;
             s2 = s1\<lparr>calls := calls s1 + 1, trace := trace s1 @ [Posted (request_for sc m)]\<rparr>
         in case axios_post w (calls s1) (request_for sc m) of
              Rejects e \<Rightarrow> (Thrown e, s2)
            | Resolves res \<Rightarrow>
                (case success_stream res of
                   Some web \<Rightarrow>
                     (construct (new_Response w (Stream web) (success_headers sc m) 200), s2)
                 | None \<Rightarrow>
                     if \<not> is429 res then
                       (construct (new_Response w (Text (upstream_error_body sc m res)) []
                          (up_status res)), s2)
                     else attempt_loop w sc m (attempt + 1) s2))
      else (Next, s))"
  by pat_completeness auto
termination
  by (relation "measure (\<lambda>(w, sc, m, attempt, s). 2 - attempt)") auto

text \<open>The outer loop of lines 87 to 142 over the candidates that are left.\<close>

fun model_loop :: "world \<Rightarrow> scope \<Rightarrow> jsstring list \<Rightarrow> io \<Rightarrow> flow \<times> io" where
  "model_loop w sc [] s = (Next, s)"
| "model_loop w sc (m # ms) s =
     (case attempt_loop w sc m 0 s of
        (Next, s') \<Rightarrow> model_loop w sc ms s'
      | r \<Rightarrow> r)"

definition modelCandidates :: "jsstring \<Rightarrow> jsstring list" where
  "modelCandidates preferModel =
     [preferModel, js ''mistral-medium-latest'', js ''mistral-small-latest'']"

definition capacity_body :: "scope \<Rightarrow> jsstring list \<Rightarrow> jsstring" where
  "capacity_body sc tried =
     js ''Capacity exceeded for all candidates.'' @ [10] @
     stringify (object
       [(''caPathUsed'', map_option JStr (caPathUsed sc)),
        (''allowInsecure'', Some (JBool (allowInsecure sc))),
        (''tried'', Some (JArr (map JStr tried)))])"

definition axios_failed_body :: "scope \<Rightarrow> js_error \<Rightarrow> jsstring" where
  "axios_failed_body sc e =
     js ''Axios failed: '' @
     stringify (object
       [(''message'', Some (JStr (error_text e))),
        (''name'', Some (JStr (e_name e))),
        (''code'', map_option JStr (e_code e)),
        (''caPathUsed'', map_option JStr (caPathUsed sc)),
        (''allowInsecure'', Some (JBool (allowInsecure sc)))])"

text \<open>
  The \<open>try\<close> block of lines 83 to 157 with its \<open>catch\<close>. The responses built outside
  the \<open>try\<close> and in the \<open>catch\<close> have a fixed status in range and no header of
  their own, so their constructor does not throw.
\<close>

definition caught :: "scope \<Rightarrow> js_error \<Rightarrow> response" where
  "caught sc e = make_response (Text (axios_failed_body sc e)) [] 502"

definition try_block :: "world \<Rightarrow> scope \<Rightarrow> jsstring \<Rightarrow> response \<times> effect list" where
  "try_block w sc preferModel =
     (case model_loop w sc (modelCandidates preferModel) \<lparr>calls = 0, randoms = 0, trace = []\<rparr> of
        (Returned x, s) \<Rightarrow> (x, trace s)
      | (Thrown e, s) \<Rightarrow> (caught sc e, trace s)
      | (Next, s) \<Rightarrow>
          (case new_Response w (Text (capacity_body sc (modelCandidates preferModel))) [] 429 of
             Inl e \<Rightarrow> (caught sc e, trace s)
           | Inr x \<Rightarrow> (x, trace s)))"

definition scope_of :: "env \<Rightarrow> jsstring \<Rightarrow> chat_payload \<Rightarrow> scope" where
  "scope_of e k payload =
     \<lparr>api_key = k,
      kept = filter_messages (payload_messages payload),
      temperature = (case payload_temperature payload of Some t \<Rightarrow> t | None \<Rightarrow> js ''0.2''),
      caPathUsed = List.find (readable e) (caCandidates e),
      allowInsecure = (ALLOW_INSECURE_TLS e = Some (js ''1''))\<rparr>"

definition preferModel :: "chat_payload \<Rightarrow> jsstring" where
  "preferModel payload =
     (case payload_model payload of Some m \<Rightarrow> m | None \<Rightarrow> js ''mistral-large-latest'')"

text \<open>The handler: the response it returns and what it did to the world.\<close>

definition POST :: "world \<Rightarrow> env \<Rightarrow> request_json \<Rightarrow> response \<times> effect list" where
  "POST w e req =
     (case MISTRAL_API_KEY e of
        None \<Rightarrow> (make_response (Text (js ''missing MISTRAL_API_KEY'')) [] 500, [])
      | Some k \<Rightarrow>
          if k = [] then (make_response (Text (js ''missing MISTRAL_API_KEY'')) [] 500, [])
          else
            (case req of
               BadJson err \<Rightarrow>
                 (make_response (Text (js ''Bad request JSON: '' @ error_text err)) [] 400, [])
             | Parsed payload \<Rightarrow> try_block w (scope_of e k payload) (preferModel payload)))"

subsection \<open>What a run did\<close>

text \<open>
  The outcome of a call is a capacity signal when it resolves to a response that is not a
  success (line 111) and for which \<open>is429\<close> of line 134 holds.
\<close>

definition capacity :: "axios_result \<Rightarrow> bool" where
  "capacity r =
     (case r of Rejects e \<Rightarrow> False | Resolves res \<Rightarrow> success_stream res = None \<and> is429 res)"

text \<open>
  What one attempt makes of the outcome of its call when the outcome is not a capacity
  signal: the response of line 113 or of line 137, or the error that the \<open>catch\<close> of
  line 148 turns into the response of line 156.
\<close>

definition attempt_result :: "world \<Rightarrow> scope \<Rightarrow> jsstring \<Rightarrow> axios_result \<Rightarrow> js_error + response" where
  "attempt_result w sc m r =
     (case r of
        Rejects e \<Rightarrow> Inl e
      | Resolves res \<Rightarrow>
          (case success_stream res of
             Some web \<Rightarrow> new_Response w (Stream web) (success_headers sc m) 200
           | None \<Rightarrow> new_Response w (Text (upstream_error_body sc m res)) [] (up_status res)))"

definition settle :: "world \<Rightarrow> scope \<Rightarrow> jsstring \<Rightarrow> axios_result \<Rightarrow> response" where
  "settle w sc m r = (case attempt_result w sc m r of Inl e \<Rightarrow> caught sc e | Inr x \<Rightarrow> x)"

text \<open>
  The calls of a request are numbered from 0 in the order they are made; call \<open>i\<close> is
  attempt \<open>i mod 2\<close> on candidate \<open>i div 2\<close>. \<open>leading\<close> counts the calls up to the
  first whose outcome is not a capacity signal, and \<open>schedule\<close> is what the two loops
  do when none of them returns: for each candidate a call, the sleep of lines 90 to 92
  with \<open>attempt = 1\<close>, and a second call.
\<close>

definition outcome :: "world \<Rightarrow> scope \<Rightarrow> jsstring list \<Rightarrow> nat \<Rightarrow> axios_result" where
  "outcome w sc cands i = axios_post w i (request_for sc (cands ! (i div 2)))"

definition leading :: "world \<Rightarrow> scope \<Rightarrow> jsstring list \<Rightarrow> nat" where
  "leading w sc cands = length (takeWhile capacity (map (outcome w sc cands) [0..<6]))"

definition schedule :: "world \<Rightarrow> scope \<Rightarrow> jsstring list \<Rightarrow> effect list" where
  "schedule w sc cands =
     concat (map (\<lambda>i. [Posted (request_for sc (cands ! i)),
                        Slept (200 + nat \<lfloor>Math_random w i * 200\<rfloor>),
                        Posted (request_for sc (cands ! i))]) [0, 1, 2])"

text \<open>The requests among the effects, in order.\<close>

fun posted :: "effect list \<Rightarrow> completion_request list" where
  "posted [] = []"
| "posted (Posted r # t) = r # posted t"
| "posted (Slept d # t) = posted t"

text \<open>
  The path of the certificate bundle, when one was read, is the value of a header of the
  success response; the constructor accepts it when it is a valid header value.
\<close>

definition header_safe :: "jsstring option \<Rightarrow> bool" where
  "header_safe v =
     (case v of None \<Rightarrow> True | Some path \<Rightarrow> valid_header_value (normalize_value path))"

text \<open>
  The test of lines 55 to 57 on a message whose content, when present, is a string:
  \<open>String(m.content).trim() === ''\<close> holds exactly of strings of white space.
\<close>

definition empty_assistant :: "chat_message \<Rightarrow> bool" where
  "empty_assistant m =
     (msg_role m = js ''assistant''
      \<and> (case msg_content m of None \<Rightarrow> True | Some c \<Rightarrow> list_all is_ws c)
      \<and> (tool_calls m = None \<or> tool_calls m = Some []))"

section \<open>The shared parsing rule\<close>

text \<open>
  \<open>obj?.choices?.[0]?.delta?.content ?? ''\<close> on a value \<open>JSON.parse\<close> returned.
  \<open>None\<close> is \<open>undefined\<close>. \<open>member\<close> reads a member that no prototype defines (the
  three names of the path are such): only an object has one, and its last duplicate
  wins. \<open>first\<close> is the index \<open>[0]\<close>, which an array, a string and an object with the
  key \<open>0\<close> have.
\<close>

definition member :: "string \<Rightarrow> json \<Rightarrow> json option" where
  "member k v = (case v of JObj ms \<Rightarrow> map_of (rev ms) (js k) | _ \<Rightarrow> None)"

definition first :: "json \<Rightarrow> json option" where
  "first v =
     (case v of
        JArr xs \<Rightarrow> (case xs of [] \<Rightarrow> None | x # _ \<Rightarrow> Some x)
      | JStr s \<Rightarrow> (case s of [] \<Rightarrow> None | c # _ \<Rightarrow> Some (JStr [c]))
      | JObj ms \<Rightarrow> map_of (rev ms) (js ''0'')
      | _ \<Rightarrow> None)"

text \<open>\<open>v?.p\<close>: \<open>undefined\<close> when \<open>v\<close> is \<open>undefined\<close> or \<open>null\<close>.\<close>

definition opt :: "json option \<Rightarrow> (json \<Rightarrow> json option) \<Rightarrow> json option" where
  "opt v p = (case v of None \<Rightarrow> None | Some JNull \<Rightarrow> None | Some x \<Rightarrow> p x)"

definition delta_of :: "json \<Rightarrow> json" where
  "delta_of obj =
     (case opt (opt (opt (opt (Some obj) (member ''choices'')) first) (member ''delta''))
             (member ''content'') of
        None \<Rightarrow> JStr []
      | Some JNull \<Rightarrow> JStr []
      | Some v \<Rightarrow> v)"

text \<open>
  \<open>!delta\<close> is \<open>\<not> truthy delta\<close>. \<open>to_string\<close> is the conversion that \<open>+\<close> applies
  to its right operand when the left one is a string; \<open>None\<close> is the \<open>TypeError\<close> it
  raises. The fragment is declared a string, and a string is taken as it is, but
  \<open>JSON.parse\<close> may give any value. An object is converted by the method \<open>toString\<close>
  it finds: that of \<open>Object.prototype\<close>, unless the object has a member of that name of
  its own, which is no function, and then no method gives a primitive (\<open>valueOf\<close>
  returns the object, or is a member and no function either) and the conversion raises.
  An array joins the conversions of its elements with commas, \<open>null\<close> giving the empty
  string, and raises when one of them does.
\<close>

fun truthy :: "json \<Rightarrow> bool" where
  "truthy JNull = False"
| "truthy (JBool b) = b"
| "truthy (JNum t) = (t \<noteq> js ''0'')"
| "truthy (JStr s) = (s \<noteq> [])"
| "truthy (JArr xs) = True"
| "truthy (JObj ms) = True"

fun to_string :: "json \<Rightarrow> jsstring option" where
  "to_string JNull = Some (js ''null'')"
| "to_string (JBool b) = Some (if b then js ''true'' else js ''false'')"
| "to_string (JNum t) = Some t"
| "to_string (JStr s) = Some s"
| "to_string (JArr xs) =
     map_option (join [44])
       (those (map (\<lambda>x. if x = JNull then Some [] else to_string x) xs))"
| "to_string (JObj ms) =
     (case map_of (rev ms) (js ''toString'') of
        None \<Rightarrow> Some (js ''[object Object]'')
      | Some v \<Rightarrow> None)"

section \<open>The event-stream helper: lib/sse.ts\<close>

text \<open>The loop of \<open>extractDeltaContentFromSSE\<close> over the lines that are left.\<close>

fun extract_lines :: "(jsstring \<Rightarrow> jsstring) \<Rightarrow> jsstring list \<Rightarrow> json list \<Rightarrow> json list" where
  "extract_lines num [] out = out"
| "extract_lines num (line # lines) out =
     (if \<not> startsWith line (js ''data:'') then extract_lines num lines out
      else
        (let data = trim (drop 5 line)
         in if data = [] \<or> data = js ''[DONE]'' then extract_lines num lines out
            else
              (case JSON_parse num data of
                 None \<Rightarrow> extract_lines num lines out
               | Some obj \<Rightarrow>
                   if truthy (delta_of obj) then extract_lines num lines (out @ [delta_of obj])
                   else extract_lines num lines out)))"

definition extractDeltaContentFromSSE :: "(jsstring \<Rightarrow> jsstring) \<Rightarrow> jsstring \<Rightarrow> json list" where
  "extractDeltaContentFromSSE num buffer = extract_lines num (split_lines buffer) []"

section \<open>The incremental renderer: app/page.tsx\<close>

datatype role = User | Assistant | System

record Msg =
  role :: role
  content :: jsstring

text \<open>
  The state of the component: the state variables that matter, and the two refs, which
  hold an \<open>AbortController\<close> and a stream reader, each known by a number. \<open>mounted\<close>
  is React's part: whether the component is still on the page. The page has no error
  boundary, so an updater that raises while React renders unmounts the component, and
  nothing of it is shown from then on. The code that runs on still writes the state
  variables and the refs.
\<close>

record page =
  messages :: "Msg list"
  input :: jsstring
  model :: jsstring
  pending :: bool
  abortRef :: "nat option"
  readerRef :: "nat option"
  mounted :: bool

text \<open>What \<open>reader.read()\<close> settles to: a chunk, the end of the stream, or a rejection.
  The chunk is the text \<open>decoder.decode(value, {stream: true})\<close> gives for it.\<close>

datatype read_result = Chunk jsstring | Done | Failed js_error

record fetch_request =
  fetch_messages :: "Msg list"
  fetch_model :: jsstring
  signal :: nat

text \<open>
  The response of \<open>fetch\<close>: \<open>res.ok\<close>, the reads its body will give (\<open>None\<close> when
  \<open>res.body\<close> is null) and the text \<open>res.text()\<close> resolves to.
\<close>

record fetch_response =
  ok :: bool
  res_body :: "read_result list option"
  res_text :: jsstring

datatype fetch_result = FetchRejects js_error | FetchResolves fetch_response

text \<open>
  The browser as one call of \<open>send\<close> meets it: the number text of \<open>JSON.parse\<close>, the
  controller and the reader it creates, and what \<open>fetch\<close> settles to.
\<close>

record browser =
  number_text :: "jsstring \<Rightarrow> jsstring"
  controller :: nat
  reader :: nat
  fetch :: "fetch_request \<Rightarrow> fetch_result"

datatype page_effect = Aborted nat | Fetched fetch_request | ReaderCancelled nat

subsection \<open>The state updaters\<close>

text \<open>\<open>copy[copy.length - 1]\<close>: \<open>undefined\<close> for the empty array.\<close>

definition last_msg :: "Msg list \<Rightarrow> Msg option" where
  "last_msg cur = (if cur = [] then None else Some (cur ! (length cur - 1)))"

text \<open>
  \<open>copy[copy.length - 1] = m\<close>: with no element the assignment adds the property \<open>-1\<close>
  and no element, so the list of messages stays empty.
\<close>

definition set_last :: "Msg list \<Rightarrow> Msg \<Rightarrow> Msg list" where
  "set_last cur m = (if cur = [] then cur else cur[length cur - 1 := m])"

text \<open>
  The updater of lines 91 to 98: the conversation it returns, or \<open>None\<close> when the
  conversion of the fragment in line 95 raises.
\<close>

definition append_delta :: "json \<Rightarrow> Msg list \<Rightarrow> Msg list option" where
  "append_delta delta cur =
     (case last_msg cur of
        None \<Rightarrow> Some cur
      | Some l \<Rightarrow>
          if role l = Assistant
          then (case to_string delta of
                  None \<Rightarrow> None
                | Some s \<Rightarrow> Some (set_last cur \<lparr>role = Assistant, content = content l @ s\<rparr>))
          else Some cur)"

text \<open>
  \<open>setMessages\<close> with an updater, on the conversation that is shown: \<open>None\<close> when the
  component is not mounted. An unmounted component takes no update, and an updater that
  raises unmounts the component.
\<close>

definition setMessages :: "(Msg list \<Rightarrow> Msg list option) \<Rightarrow> Msg list option \<Rightarrow> Msg list option" where
  "setMessages f v = (case v of None \<Rightarrow> None | Some cur \<Rightarrow> f cur)"

text \<open>The warning sign and the space that start an error text.\<close>

definition warning :: jsstring where
  "warning = [9888, 65039, 32]"

text \<open>The updater of lines 53 to 57.\<close>

definition show_failure :: "jsstring \<Rightarrow> Msg list \<Rightarrow> Msg list" where
  "show_failure failure cur = set_last cur \<lparr>role = Assistant, content = warning @ failure\<rparr>"

text \<open>The updater of lines 110 to 116.\<close>

definition show_error :: "js_error \<Rightarrow> Msg list \<Rightarrow> Msg list" where
  "show_error err cur =
     (let msg = warning @ error_text err
      in set_last cur
           \<lparr>role = Assistant,
            content =
              (case last_msg cur of
                 None \<Rightarrow> msg
               | Some l \<Rightarrow> if role l = Assistant then content l @ [10, 10] @ msg else msg)\<rparr>)"

text \<open>The test of line 106.\<close>

definition is_abort :: "js_error \<Rightarrow> bool" where
  "is_abort err =
     (e_name err = js ''AbortError''
      \<or> test_i (js ''aborted'') (e_message err)
      \<or> test_i (js ''BodyStreamBuffer was aborted'') (e_message err))"

subsection \<open>The read loop\<close>

text \<open>The body of the inner loop for one line, already trimmed (lines 82 to 101).\<close>

definition handle_line ::
  "(jsstring \<Rightarrow> jsstring) \<Rightarrow> jsstring \<Rightarrow> Msg list option \<Rightarrow> Msg list option" where
  "handle_line num line cur =
     (if \<not> startsWith line (js ''data:'') then cur
      else
        (let payload = trim (drop 5 line)
         in if payload = [] \<or> payload = js ''[DONE]'' then cur
            else
              (case JSON_parse num payload of
                 None \<Rightarrow> cur
               | Some obj \<Rightarrow>
                   if \<not> truthy (delta_of obj) then cur
                   else setMessages (append_delta (delta_of obj)) cur)))"

lemma indexOf_less: "indexOf xs c = Some i \<Longrightarrow> i < length xs"
  by (induction xs arbitrary: i) (auto split: if_splits)

text \<open>
  The inner loop of lines 78 to 102: the buffer that is left and the conversation that
  is shown.
\<close>

function drain ::
  "(jsstring \<Rightarrow> jsstring) \<Rightarrow> jsstring \<Rightarrow> Msg list option \<Rightarrow> jsstring \<times> Msg list option" where
  "drain num buffer cur =
     (case indexOf buffer 10 of
        None \<Rightarrow> (buffer, cur)
      | Some idx \<Rightarrow>
          drain num (drop (idx + 1) buffer) (handle_line num (trim (take idx buffer)) cur))"
  by pat_completeness auto
termination
  by (relation "measure (\<lambda>(num, buffer, cur). length buffer)")
     (auto dest: indexOf_less)

text \<open>
  The loop of lines 72 to 103 over the reads that settle, in order. When no read is
  left the loop is suspended in \<open>await reader.read()\<close> with its buffer.
\<close>

datatype loop_exit = Broke | Threw js_error | Blocked

fun read_loop ::
  "(jsstring \<Rightarrow> jsstring) \<Rightarrow> jsstring \<Rightarrow> Msg list option \<Rightarrow> read_result list
     \<Rightarrow> loop_exit \<times> jsstring \<times> Msg list option" where
  "read_loop num buffer cur [] = (Blocked, buffer, cur)"
| "read_loop num buffer cur (Done # reads) = (Broke, buffer, cur)"
| "read_loop num buffer cur (Failed err # reads) = (Threw err, buffer, cur)"
| "read_loop num buffer cur (Chunk v # reads) =
     (case drain num (buffer @ v) cur of
        (buffer', cur') \<Rightarrow> read_loop num buffer' cur' reads)"

text \<open>The text that the loop receives from these reads before it is left.\<close>

fun received :: "read_result list \<Rightarrow> jsstring" where
  "received [] = []"
| "received (Chunk v # reads) = v @ received reads"
| "received (Done # reads) = []"
| "received (Failed err # reads) = []"

subsection \<open>send, stop and reset\<close>

text \<open>
  How a call of \<open>send\<close> stands: it returned at the guard, its promise rejected because
  \<open>fetch\<close> did, it showed the failure of a response that is not ok, it ran to the end of
  its \<open>finally\<close>, or it is suspended in a read with the buffer it holds.
\<close>

datatype send_exit = NotSent | Rejected js_error | FailureShown | Finished | Awaiting jsstring

text \<open>The \<open>finally\<close> of lines 118 to 123.\<close>

definition finally_block :: "page \<Rightarrow> page \<times> page_effect list" where
  "finally_block st =
     (st\<lparr>readerRef := None, pending := False, abortRef := None\<rparr>,
      (case readerRef st of None \<Rightarrow> [] | Some r \<Rightarrow> [ReaderCancelled r]))"

text \<open>
  What the page shows, and the page after the updaters of the loop: the conversation
  they made, or the component unmounted.
\<close>

definition shown :: "page \<Rightarrow> Msg list option" where
  "shown st = (if mounted st then Some (messages st) else None)"

definition render :: "Msg list option \<Rightarrow> page \<Rightarrow> page" where
  "render v st = (case v of None \<Rightarrow> st\<lparr>mounted := False\<rparr> | Some cur \<Rightarrow> st\<lparr>messages := cur\<rparr>)"

text \<open>
  The \<open>try\<close> of lines 65 to 123 from a read on: \<open>buffer\<close> is the buffer of the loop,
  \<open>reads\<close> the reads that settle from here. The updater of lines 110 to 116 converts
  strings only and does not raise.
\<close>

definition stream_phase ::
  "(jsstring \<Rightarrow> jsstring) \<Rightarrow> jsstring \<Rightarrow> page \<Rightarrow> read_result list
     \<Rightarrow> send_exit \<times> page \<times> page_effect list" where
  "stream_phase num buffer st reads =
     (case read_loop num buffer (shown st) reads of
        (Blocked, buffer', cur) \<Rightarrow> (Awaiting buffer', render cur st, [])
      | (Broke, buffer', cur) \<Rightarrow>
          (case finally_block (render cur st) of (st', fx) \<Rightarrow> (Finished, st', fx))
      | (Threw err, buffer', cur) \<Rightarrow>
          (case finally_block
                  (render (if is_abort err then cur
                           else setMessages (\<lambda>c. Some (show_error err c)) cur) st) of
             (st', fx) \<Rightarrow> (Finished, st', fx)))"

definition send :: "browser \<Rightarrow> page \<Rightarrow> send_exit \<times> page \<times> page_effect list" where
  "send b st =
     (if trim (input st) = [] \<or> pending st then (NotSent, st, [])
      else
        (let next = messages st @
               [\<lparr>role = User, content = input st\<rparr>, \<lparr>role = Assistant, content = []\<rparr>];
             messagesForApi = filter (\<lambda>m. \<not> (role m = Assistant \<and> trim (content m) = [])) next;
             aborts = (case abortRef st of None \<Rightarrow> [] | Some old \<Rightarrow> [Aborted old]);
             request = \<lparr>fetch_messages = messagesForApi, fetch_model = model st,
                        signal = controller b\<rparr>;
             st1 = st\<lparr>messages := next, input := [], pending := True,
                      abortRef := Some (controller b)\<rparr>
         in case fetch b request of
              FetchRejects err \<Rightarrow> (Rejected err, st1, aborts @ [Fetched request])
            | FetchResolves res \<Rightarrow>
                (case (if ok res then res_body res else None) of
                   None \<Rightarrow>
                     (FailureShown,
                      st1\<lparr>pending := False, messages := show_failure (res_text res) next\<rparr>,
                      aborts @ [Fetched request])
                 | Some reads \<Rightarrow>
                     (case stream_phase (number_text b) [] (st1\<lparr>readerRef := Some (reader b)\<rparr>)
                             reads of
                        (exit, st', fx) \<Rightarrow> (exit, st', aborts @ [Fetched request] @ fx)))))"

definition stop :: "page \<Rightarrow> page \<times> page_effect list" where
  "stop st =
     (st\<lparr>abortRef := None, pending := False\<rparr>,
      (case readerRef st of None \<Rightarrow> [] | Some r \<Rightarrow> [ReaderCancelled r]) @
      (case abortRef st of None \<Rightarrow> [] | Some c \<Rightarrow> [Aborted c]))"

definition reset :: "page \<Rightarrow> page \<times> page_effect list" where
  "reset st = (case stop st of (st', fx) \<Rightarrow> (st'\<lparr>messages := [], input := []\<rparr>, fx))"

text \<open>The test of line 36 on a message of the page.\<close>

definition blank_assistant :: "Msg \<Rightarrow> bool" where
  "blank_assistant m = (role m = Assistant \<and> list_all is_ws (content m))"

subsection \<open>Sample values\<close>

text \<open>The event stream of the test of the renderer, the state of the component when it
  is mounted and while a response streams, a browser whose \<open>fetch\<close> resolves to a
  stream of given reads, and two errors a read may reject with.\<close>

definition bonjour_stream :: jsstring where
  \<open>bonjour_stream =
     js ''data: {"choices":[{"delta":{"content":"Bonjour"}}]}'' @ [10] @
     js ''data: {"choices":[{"delta":{"content":" !"}}]}'' @ [10] @
     js ''data: [DONE]'' @ [10]\<close>

definition initial_page :: page where
  "initial_page =
     \<lparr>messages = [],
      input = js ''Bonjour! Parlez-moi du fromage fran'' @ [231] @ js ''ais.'',
      model = js ''mistral-large-latest'',
      pending = False, abortRef = None, readerRef = None, mounted = True\<rparr>"

definition streaming_browser :: "read_result list \<Rightarrow> browser" where
  "streaming_browser reads =
     \<lparr>number_text = id, controller = 1, reader = 2,
      fetch = (\<lambda>r. FetchResolves \<lparr>ok = True, res_body = Some reads, res_text = []\<rparr>)\<rparr>"

definition streaming_page :: page where
  "streaming_page =
     \<lparr>messages = [\<lparr>role = User, content = js ''hi''\<rparr>, \<lparr>role = Assistant, content = js ''Bon''\<rparr>],
      input = [], model = js ''mistral-large-latest'',
      pending = True, abortRef = Some 1, readerRef = Some 2, mounted = True\<rparr>"

definition network_error :: js_error where
  "network_error = \<lparr>e_name = js ''TypeError'', e_message = js ''network error'', e_code = None\<rparr>"

definition abort_error :: js_error where
  "abort_error =
     \<lparr>e_name = js ''AbortError'', e_message = js ''The operation was aborted.'', e_code = None\<rparr>"

text \<open>
  For the forwarder: a world whose calls resolve, in order, to the given outcomes (and
  are refused after them) and whose random numbers are all one half; the environment of
  the tests of the route; capacity signals by status and by message; a success; a
  response the upstream service rejects; and the request of the second test of the route.
\<close>

definition script :: "axios_result list \<Rightarrow> nat \<Rightarrow> completion_request \<Rightarrow> axios_result" where
  "script rs n r =
     (if n < length rs then rs ! n
      else Rejects \<lparr>e_name = js ''Error'', e_message = js ''connect ECONNREFUSED'',
             e_code = Some (js ''ECONNREFUSED'')\<rparr>)"

definition scripted :: "axios_result list \<Rightarrow> world" where
  "scripted rs =
     \<lparr>axios_post = script rs, Math_random = (\<lambda>n. 1 / 2),
      fault_message = (\<lambda>f. js ''Invalid response status code'')\<rparr>"

definition test_env :: env where
  "test_env =
     \<lparr>MISTRAL_API_KEY = Some (js ''test-key''), NODE_EXTRA_CA_CERTS = None,
      ALLOW_INSECURE_TLS = None, readable = (\<lambda>p. False)\<rparr>"

definition busy :: axios_result where
  \<open>busy = Resolves \<lparr>up_status = 429, up_data = Some [js ''{"object":"error"}'']\<rparr>\<close>

definition saturated :: axios_result where
  \<open>saturated =
     Resolves \<lparr>up_status = 503,
       up_data = Some [js ''{"code":"Service_Tier_Capacity_Exceeded"}'']\<rparr>\<close>

definition streamed :: axios_result where
  "streamed = Resolves \<lparr>up_status = 200, up_data = Some [js ''data: [DONE]'' @ [10]]\<rparr>"

definition bad_request :: axios_result where
  "bad_request = Resolves \<lparr>up_status = 400, up_data = Some [js ''bad request'']\<rparr>"

definition hello :: chat_payload where
  "hello =
     \<lparr>payload_messages =
        Some [\<lparr>msg_role = js ''user'', msg_content = Some (js ''Hello''), tool_calls = None\<rparr>,
              \<lparr>msg_role = js ''assistant'', msg_content = Some [], tool_calls = None\<rparr>],
      payload_model = Some (js ''mistral-large-latest''),
      payload_temperature = None\<rparr>"

definition exhausted_world :: world where
  "exhausted_world = scripted [busy, saturated, busy, busy, saturated, busy]"

definition fallback_world :: world where
  "fallback_world = scripted [busy, busy, busy, streamed, streamed]"

definition second_fallback_world :: world where
  "second_fallback_world = scripted [busy, busy, saturated, busy, streamed]"

definition failing_world :: world where
  "failing_world = scripted [busy, busy, bad_request]"

definition test_scope :: scope where
  "test_scope = scope_of test_env (js ''test-key'') hello"

definition test_candidates :: "jsstring list" where
  "test_candidates = modelCandidates (preferModel hello)"

text \<open>
  For the page: the state after a response was stopped before any fragment arrived, with
  a new question typed, and the request that \<open>send\<close> then makes.
\<close>

definition stopped_page :: page where
  "stopped_page =
     \<lparr>messages = [\<lparr>role = User, content = js ''hi''\<rparr>, \<lparr>role = Assistant, content = []\<rparr>],
      input = js ''again'', model = js ''mistral-large-latest'',
      pending = False, abortRef = None, readerRef = None, mounted = True\<rparr>"

definition retry_request :: fetch_request where
  "retry_request =
     \<lparr>fetch_messages = [\<lparr>role = User, content = js ''hi''\<rparr>, \<lparr>role = User, content = js ''again''\<rparr>],
      fetch_model = js ''mistral-large-latest'', signal = 1\<rparr>"

text \<open>
  The page while a response streams with a new question typed, the page after a failure
  was shown, and the browser of the next call of \<open>send\<close>.
\<close>

definition in_flight_page :: page where
  "in_flight_page = streaming_page\<lparr>input := js ''again''\<rparr>"

definition failed_page :: page where
  "failed_page =
     \<lparr>messages = [\<lparr>role = User, content = js ''hi''\<rparr>,
                  \<lparr>role = Assistant, content = [9888, 65039, 32] @ js ''missing MISTRAL_API_KEY''\<rparr>],
      input = js ''again'', model = js ''mistral-large-latest'',
      pending = False, abortRef = Some 1, readerRef = None, mounted = True\<rparr>"

definition next_browser :: "read_result list \<Rightarrow> browser" where
  "next_browser reads =
     \<lparr>number_text = id, controller = 3, reader = 4,
      fetch = (\<lambda>r. FetchResolves \<lparr>ok = True, res_body = Some reads, res_text = []\<rparr>)\<rparr>"

section \<open>Properties of the renderer\<close>

subsection \<open>The updaters\<close>

lemma set_last_snoc: "set_last (xs @ [x]) m = xs @ [m]"
  by (simp add: set_last_def)

lemma last_msg_snoc: "last_msg (xs @ [x]) = Some x"
  by (simp add: last_msg_def)

lemma last_msg_Nil: "last_msg [] = None"
  by (simp add: last_msg_def)

lemma append_delta_snoc:
  "append_delta d (xs @ [x]) =
     (if role x = Assistant
      then map_option (\<lambda>s. xs @ [\<lparr>role = Assistant, content = content x @ s\<rparr>]) (to_string d)
      else Some (xs @ [x]))"
  by (simp add: append_delta_def last_msg_snoc set_last_snoc split: option.splits)

lemma append_delta_Nil: "append_delta d [] = Some []"
  by (simp add: append_delta_def last_msg_Nil)

lemma to_string_object:
  "to_string (JObj ms) = None \<longleftrightarrow> js ''toString'' \<in> fst ` set ms"
proof -
  have "map_of (rev ms) (js ''toString'') = None \<longleftrightarrow> js ''toString'' \<notin> fst ` set ms"
    by (simp add: map_of_eq_None_iff)
  then show ?thesis by (auto split: option.splits)
qed

text \<open>
  Claim C10. The updater returns a conversation or raises. When there is no last message
  or the last message is not an assistant message it returns the conversation as it is:
  the fragment is dropped. When the last message is an assistant message the fragment is
  converted to a string: the updater returns the conversation with that string appended
  to the content of the last message, whose role stays, or it raises because the
  conversion does, and it raises in no other case. Whatever it returns has the same
  number of messages and the same messages before the last. A string, a number and a
  boolean are always converted, a string to itself; an object is converted unless it has
  a member \<open>toString\<close> of its own.
\<close>

theorem append_delta_frame:
  "(cur = [] \<or> role (last cur) \<noteq> Assistant \<longrightarrow> append_delta d cur = Some cur)
   \<and> (cur \<noteq> [] \<and> role (last cur) = Assistant \<longrightarrow>
        append_delta d cur =
          map_option
            (\<lambda>s. butlast cur @ [\<lparr>role = Assistant, content = content (last cur) @ s\<rparr>])
            (to_string d))
   \<and> (\<forall>cur'. append_delta d cur = Some cur' \<longrightarrow>
        length cur' = length cur
        \<and> (\<forall>i. i + 1 < length cur \<longrightarrow> cur' ! i = cur ! i)
        \<and> (cur \<noteq> [] \<and> role (last cur) = Assistant \<longrightarrow>
             (\<exists>s. to_string d = Some s
                \<and> last cur' = \<lparr>role = Assistant, content = content (last cur) @ s\<rparr>)))
   \<and> (append_delta d cur = None
        \<longleftrightarrow> cur \<noteq> [] \<and> role (last cur) = Assistant \<and> to_string d = None)
   \<and> to_string (JStr s) = Some s \<and> to_string (JNum t) = Some t
   \<and> to_string (JBool b) \<noteq> None
   \<and> (to_string (JObj ms) = None \<longleftrightarrow> js ''toString'' \<in> fst ` set ms)"
proof -
  have conv: "to_string (JStr s) = Some s \<and> to_string (JNum t) = Some t
      \<and> to_string (JBool b) \<noteq> None
      \<and> (to_string (JObj ms) = None \<longleftrightarrow> js ''toString'' \<in> fst ` set ms)"
    using to_string_object [of ms] by simp
  have upd: "(cur = [] \<or> role (last cur) \<noteq> Assistant \<longrightarrow> append_delta d cur = Some cur)
   \<and> (cur \<noteq> [] \<and> role (last cur) = Assistant \<longrightarrow>
        append_delta d cur =
          map_option
            (\<lambda>s. butlast cur @ [\<lparr>role = Assistant, content = content (last cur) @ s\<rparr>])
            (to_string d))
   \<and> (\<forall>cur'. append_delta d cur = Some cur' \<longrightarrow>
        length cur' = length cur
        \<and> (\<forall>i. i + 1 < length cur \<longrightarrow> cur' ! i = cur ! i)
        \<and> (cur \<noteq> [] \<and> role (last cur) = Assistant \<longrightarrow>
             (\<exists>s. to_string d = Some s
                \<and> last cur' = \<lparr>role = Assistant, content = content (last cur) @ s\<rparr>)))
   \<and> (append_delta d cur = None
        \<longleftrightarrow> cur \<noteq> [] \<and> role (last cur) = Assistant \<and> to_string d = None)"
  proof (cases cur rule: rev_cases)
    case Nil
    then show ?thesis by (simp add: append_delta_Nil)
  next
    case (snoc xs x)
    then show ?thesis
      by (cases "to_string d") (auto simp: append_delta_snoc nth_append)
  qed
  from conv upd show ?thesis by blast
qed

theorem append_delta_frame_witness:
  "[\<lparr>role = User, content = js ''hi''\<rparr>, \<lparr>role = Assistant, content = js ''Bon''\<rparr>] \<noteq> []
   \<and> role (last [\<lparr>role = User, content = js ''hi''\<rparr>,
                  \<lparr>role = Assistant, content = js ''Bon''\<rparr>]) = Assistant
   \<and> (0::nat) + 1 < length [\<lparr>role = User, content = js ''hi''\<rparr>,
                             \<lparr>role = Assistant, content = js ''Bon''\<rparr>]
   \<and> append_delta (JStr (js ''jour''))
         [\<lparr>role = User, content = js ''hi''\<rparr>, \<lparr>role = Assistant, content = js ''Bon''\<rparr>]
       = Some [\<lparr>role = User, content = js ''hi''\<rparr>, \<lparr>role = Assistant, content = js ''Bonjour''\<rparr>]
   \<and> length [\<lparr>role = User, content = js ''hi''\<rparr>, \<lparr>role = Assistant, content = js ''Bonjour''\<rparr>]
       = length [\<lparr>role = User, content = js ''hi''\<rparr>, \<lparr>role = Assistant, content = js ''Bon''\<rparr>]
   \<and> [\<lparr>role = User, content = js ''hi''\<rparr>, \<lparr>role = Assistant, content = js ''Bonjour''\<rparr>] ! 0
       = [\<lparr>role = User, content = js ''hi''\<rparr>, \<lparr>role = Assistant, content = js ''Bon''\<rparr>] ! 0
   \<and> role (last [\<lparr>role = User, content = js ''hi''\<rparr>]) \<noteq> Assistant
   \<and> append_delta (JStr (js ''jour'')) [\<lparr>role = User, content = js ''hi''\<rparr>]
       = Some [\<lparr>role = User, content = js ''hi''\<rparr>]
   \<and> js ''toString'' \<in> fst ` set [(js ''toString'', JNull)]
   \<and> to_string (JObj [(js ''toString'', JNull)]) = None
   \<and> append_delta (JObj [(js ''toString'', JNull)])
         [\<lparr>role = User, content = js ''hi''\<rparr>, \<lparr>role = Assistant, content = js ''Bon''\<rparr>]
       = None"
proof -
  let ?cur = "[\<lparr>role = User, content = js ''hi''\<rparr>, \<lparr>role = Assistant, content = js ''Bon''\<rparr>]"
  let ?new = "[\<lparr>role = User, content = js ''hi''\<rparr>, \<lparr>role = Assistant, content = js ''Bonjour''\<rparr>]"
  let ?bad = "JObj [(js ''toString'', JNull)]"
  note t1 = append_delta_frame [of ?cur "JStr (js ''jour'')" "js ''jour''" "[]" True
      "[(js ''toString'', JNull)]"]
  note t2 = append_delta_frame [of "[\<lparr>role = User, content = js ''hi''\<rparr>]" "JStr (js ''jour'')"]
  note t3 = append_delta_frame [of ?cur ?bad "[]" "[]" True "[(js ''toString'', JNull)]"]
  have h: "?cur \<noteq> []" "role (last ?cur) = Assistant" "(0::nat) + 1 < length ?cur"
    "role (last [\<lparr>role = User, content = js ''hi''\<rparr>]) \<noteq> Assistant"
    "js ''toString'' \<in> fst ` set [(js ''toString'', JNull)]"
    by simp_all
  have a: "append_delta (JStr (js ''jour'')) ?cur = Some ?new"
    using t1 h by (simp add: js_def)
  have b: "length ?new = length ?cur \<and> ?new ! 0 = ?cur ! 0"
    using t1 a h(3) by blast
  have c: "append_delta (JStr (js ''jour'')) [\<lparr>role = User, content = js ''hi''\<rparr>]
       = Some [\<lparr>role = User, content = js ''hi''\<rparr>]"
    using t2 h(4) by blast
  have d: "to_string ?bad = None" using t3 h(5) by blast
  have e: "append_delta ?bad ?cur = None" using t3 h(1,2) d by blast
  from h a b c d e show ?thesis by blast
qed

subsection \<open>Reassembly of lines\<close>

declare drain.simps [simp del]

lemma indexOf_None_iff: "indexOf xs c = None \<longleftrightarrow> c \<notin> set xs"
  by (induction xs) auto

lemma indexOf_first: "c \<notin> set l \<Longrightarrow> indexOf (l @ c # r) c = Some (length l)"
  by (induction l) auto

lemma drain_no_newline: "10 \<notin> set b \<Longrightarrow> drain num b cur = (b, cur)"
  by (subst drain.simps) (simp add: indexOf_None_iff [THEN iffD2])

lemma drain_line:
  "10 \<notin> set l \<Longrightarrow> drain num (l @ 10 # r) cur = drain num r (handle_line num (trim l) cur)"
  by (subst drain.simps) (simp add: indexOf_first)

lemma split_at_newline:
  "indexOf b c = Some i \<Longrightarrow> b = take i b @ c # drop (i + 1) b \<and> c \<notin> set (take i b)"
proof (induction b arbitrary: i)
  case Nil
  then show ?case by simp
next
  case (Cons x xs)
  show ?case
  proof (cases "x = c")
    case True
    with Cons.prems show ?thesis by simp
  next
    case False
    with Cons.prems obtain j where j: "indexOf xs c = Some j" and i: "i = Suc j"
      by auto
    from Cons.IH [OF j] False i show ?thesis by auto
  qed
qed

lemma drain_append:
  "drain num (b @ c) cur = (case drain num b cur of (b', cur') \<Rightarrow> drain num (b' @ c) cur')"
proof (induction num b cur rule: drain.induct)
  case (1 num buffer cur)
  show ?case
  proof (cases "indexOf buffer 10")
    case None
    then have "10 \<notin> set buffer" by (simp add: indexOf_None_iff)
    then show ?thesis by (simp add: drain_no_newline)
  next
    case (Some idx)
    from split_at_newline [OF Some]
    have b: "buffer = take idx buffer @ 10 # drop (idx + 1) buffer"
      and n: "10 \<notin> set (take idx buffer)" by simp_all
    have "drain num (buffer @ c) cur
        = drain num ((take idx buffer) @ 10 # (drop (idx + 1) buffer @ c)) cur"
      using b by (metis append.assoc append_Cons)
    also have "\<dots> = drain num (drop (idx + 1) buffer @ c)
        (handle_line num (trim (take idx buffer)) cur)"
      using n by (rule drain_line)
    also have "\<dots> = (case drain num (drop (idx + 1) buffer)
        (handle_line num (trim (take idx buffer)) cur) of
          (b', cur') \<Rightarrow> drain num (b' @ c) cur')"
      using "1.IH" [OF Some] .
    also have "drain num (drop (idx + 1) buffer) (handle_line num (trim (take idx buffer)) cur)
        = drain num buffer cur"
      using Some by (subst (2) drain.simps) simp
    finally show ?thesis .
  qed
qed

lemma drain_rest: "10 \<notin> set (fst (drain num b cur))"
proof (induction num b cur rule: drain.induct)
  case (1 num buffer cur)
  show ?case
  proof (cases "indexOf buffer 10")
    case None
    then have "10 \<notin> set buffer" by (simp add: indexOf_None_iff)
    then show ?thesis by (simp add: drain_no_newline)
  next
    case (Some idx)
    with "1.IH" [OF Some] show ?thesis by (subst drain.simps) simp
  qed
qed

lemma read_loop_pieces:
  "10 \<notin> set buffer \<Longrightarrow> 10 \<notin> set (concat pieces) \<Longrightarrow>
   read_loop num buffer cur (map Chunk pieces @ reads)
     = read_loop num (buffer @ concat pieces) cur reads"
proof (induction pieces arbitrary: buffer)
  case Nil
  then show ?case by simp
next
  case (Cons p ps)
  then have "10 \<notin> set (buffer @ p)" by simp
  then have "drain num (buffer @ p) cur = (buffer @ p, cur)" by (rule drain_no_newline)
  with Cons show ?case by simp
qed

lemma read_loop_merge:
  "10 \<notin> set buffer \<Longrightarrow>
   read_loop num buffer cur (map Chunk pieces @ reads)
     = read_loop num buffer cur (Chunk (concat pieces) # reads)"
proof (induction pieces arbitrary: buffer cur)
  case Nil
  then show ?case by (simp add: drain_no_newline)
next
  case (Cons p ps)
  obtain b' cur' where d: "drain num (buffer @ p) cur = (b', cur')" by (cases "drain num (buffer @ p) cur")
  have n: "10 \<notin> set b'" using drain_rest [of num "buffer @ p" cur] d by simp
  have "read_loop num buffer cur (map Chunk (p # ps) @ reads)
      = read_loop num b' cur' (map Chunk ps @ reads)" using d by simp
  also have "\<dots> = read_loop num b' cur' (Chunk (concat ps) # reads)" using Cons.IH [OF n] .
  also have "\<dots> = read_loop num buffer cur (Chunk (concat (p # ps)) # reads)"
    using drain_append [of num "buffer @ p" "concat ps" cur] d by simp
  finally show ?case .
qed


lemmas line_eval =
  handle_line_def trim_def startsWith_def is_ws_def JSON_parse_def js_def
  delta_of_def opt_def member_def first_def setMessages_def append_delta_def last_msg_def
  set_last_def

text \<open>
  Claim C6. A line that arrives in pieces: while the pieces hold no newline the loop only
  collects them in the buffer and no message changes; with the read that brings the
  newline the loop handles the whole line, reassembled and trimmed, once, and goes on
  with what follows the newline. Handling a line calls the updater for at most one
  fragment, and a line whose payload \<open>JSON.parse\<close> rejects changes nothing; the loop is
  not left. So the result is that of reading the pieces in one chunk. This holds
  whatever is shown, \<open>cur\<close>, also when the component is no longer mounted.
\<close>

theorem split_line_reassembled:
  assumes "10 \<notin> set buffer" and "10 \<notin> set (concat pieces)" and "10 \<notin> set final"
  shows
    "read_loop num buffer cur (map Chunk pieces) = (Blocked, buffer @ concat pieces, cur)
     \<and> read_loop num buffer cur (map Chunk pieces @ Chunk (final @ 10 # rest) # reads)
         = read_loop num []
             (handle_line num (trim (buffer @ concat pieces @ final)) cur) (Chunk rest # reads)
     \<and> (handle_line num line cur = cur
          \<or> (\<exists>d. truthy d \<and> handle_line num line cur = setMessages (append_delta d) cur))
     \<and> (JSON_parse num (trim (drop 5 line)) = None \<longrightarrow> handle_line num line cur = cur)
     \<and> read_loop num buffer cur (map Chunk pieces @ Chunk (final @ 10 # rest) # reads)
         = read_loop num buffer cur (Chunk (concat pieces @ final @ 10 # rest) # reads)"
proof -
  have a: "read_loop num buffer cur (map Chunk pieces) = (Blocked, buffer @ concat pieces, cur)"
    using read_loop_pieces [OF assms(1,2), of num cur "[]"] by simp
  have n: "10 \<notin> set (buffer @ concat pieces @ final)" using assms by simp
  have "read_loop num buffer cur (map Chunk pieces @ Chunk (final @ 10 # rest) # reads)
      = read_loop num (buffer @ concat pieces) cur (Chunk (final @ 10 # rest) # reads)"
    using assms(1,2) by (rule read_loop_pieces)
  also have "\<dots> = (case drain num ((buffer @ concat pieces @ final) @ 10 # rest) cur of
      (b', cur') \<Rightarrow> read_loop num b' cur' reads)" by simp
  also have "\<dots> = (case drain num rest
      (handle_line num (trim (buffer @ concat pieces @ final)) cur) of
      (b', cur') \<Rightarrow> read_loop num b' cur' reads)"
    by (simp only: drain_line [OF n])
  finally have b: "read_loop num buffer cur (map Chunk pieces @ Chunk (final @ 10 # rest) # reads)
      = read_loop num []
          (handle_line num (trim (buffer @ concat pieces @ final)) cur) (Chunk rest # reads)"
    by simp
  have c: "handle_line num line cur = cur
      \<or> (\<exists>d. truthy d \<and> handle_line num line cur = setMessages (append_delta d) cur)"
    by (auto simp: handle_line_def Let_def split: option.splits)
  have d: "JSON_parse num (trim (drop 5 line)) = None \<longrightarrow> handle_line num line cur = cur"
    by (simp add: handle_line_def Let_def)
  have e: "read_loop num buffer cur (map Chunk pieces @ Chunk (final @ 10 # rest) # reads)
      = read_loop num buffer cur (Chunk (concat pieces @ final @ 10 # rest) # reads)"
    using read_loop_merge [OF assms(1), of num cur "pieces @ [final @ 10 # rest]" reads]
    by simp
  from a b c d e show ?thesis by blast
qed




theorem split_line_reassembled_witness:
  \<open>10 \<notin> set ([] :: jsstring)
   \<and> 10 \<notin> set (concat [js ''data: {"choi''])
   \<and> 10 \<notin> set (js ''ces":[{"delta":{"content":"Hi"}}]}'')
   \<and> read_loop id [] (Some [\<lparr>role = Assistant, content = []\<rparr>]) (map Chunk [js ''data: {"choi''])
       = (Blocked, js ''data: {"choi'', (Some [\<lparr>role = Assistant, content = []\<rparr>]))
   \<and> read_loop id [] (Some [\<lparr>role = Assistant, content = []\<rparr>])
         (map Chunk [js ''data: {"choi'']
            @ Chunk (js ''ces":[{"delta":{"content":"Hi"}}]}'' @ 10 # []) # [Done])
       = (Broke, [], Some [\<lparr>role = Assistant, content = js ''Hi''\<rparr>])
   \<and> JSON_parse id (trim (drop 5 (js ''data: {"choi''))) = None
   \<and> handle_line id (js ''data: {"choi'') (Some [\<lparr>role = Assistant, content = []\<rparr>])
       = (Some [\<lparr>role = Assistant, content = []\<rparr>])
   \<and> read_loop id [] (Some [\<lparr>role = Assistant, content = []\<rparr>])
         (Chunk (concat [js ''data: {"choi'']
            @ js ''ces":[{"delta":{"content":"Hi"}}]}'' @ 10 # []) # [Done])
       = (Broke, [], Some [\<lparr>role = Assistant, content = js ''Hi''\<rparr>])\<close>
proof -
  have h1: "10 \<notin> set ([] :: jsstring)" by simp
  have h2: \<open>10 \<notin> set (concat [js ''data: {"choi''])\<close> by (simp add: js_def)
  have h3: \<open>10 \<notin> set (js ''ces":[{"delta":{"content":"Hi"}}]}'')\<close> by (simp add: js_def)
  have p: \<open>JSON_parse id (trim (drop 5 (js ''data: {"choi''))) = None\<close>
    by (simp add: line_eval)
  have v: \<open>read_loop id []
      (handle_line id
         (trim ([] @ concat [js ''data: {"choi''] @ js ''ces":[{"delta":{"content":"Hi"}}]}''))
         (Some [\<lparr>role = Assistant, content = []\<rparr>])) (Chunk [] # [Done])
      = (Broke, [], Some [\<lparr>role = Assistant, content = js ''Hi''\<rparr>])\<close>
    by (simp add: drain_no_newline line_eval)
  note t = split_line_reassembled [OF h1 h2 h3, of id "Some [\<lparr>role = Assistant, content = []\<rparr>]"
      "[]" "[Done]" \<open>js ''data: {"choi''\<close>]
  have a: \<open>read_loop id [] (Some [\<lparr>role = Assistant, content = []\<rparr>]) (map Chunk [js ''data: {"choi''])
       = (Blocked, js ''data: {"choi'', (Some [\<lparr>role = Assistant, content = []\<rparr>]))\<close>
    using t by simp
  have b: \<open>read_loop id [] (Some [\<lparr>role = Assistant, content = []\<rparr>])
         (map Chunk [js ''data: {"choi'']
            @ Chunk (js ''ces":[{"delta":{"content":"Hi"}}]}'' @ 10 # []) # [Done])
       = (Broke, [], Some [\<lparr>role = Assistant, content = js ''Hi''\<rparr>])\<close>
    by (rule trans [OF t [THEN conjunct2, THEN conjunct1] v])
  have c: \<open>handle_line id (js ''data: {"choi'') (Some [\<lparr>role = Assistant, content = []\<rparr>])
       = (Some [\<lparr>role = Assistant, content = []\<rparr>])\<close>
    using t p by blast
  have d: \<open>read_loop id [] (Some [\<lparr>role = Assistant, content = []\<rparr>])
         (Chunk (concat [js ''data: {"choi'']
            @ js ''ces":[{"delta":{"content":"Hi"}}]}'' @ 10 # []) # [Done])
       = (Broke, [], Some [\<lparr>role = Assistant, content = js ''Hi''\<rparr>])\<close>
    by (rule trans [OF t [THEN conjunct2, THEN conjunct2, THEN conjunct2, THEN conjunct2,
      symmetric] b])
  from h1 h2 h3 a b p c d show ?thesis by blast
qed

subsection \<open>The stream of the test, exits and errors\<close>

lemmas parse_eval =
  handle_line_def trim_def startsWith_def is_ws_def JSON_parse_def js_def
  delta_of_def opt_def member_def first_def

lemma handle_bonjour:
  \<open>handle_line num (trim (js ''data: {"choices":[{"delta":{"content":"Bonjour"}}]}'')) cur
     = setMessages (append_delta (JStr (js ''Bonjour''))) cur\<close>
  by (simp add: parse_eval)

lemma handle_bang:
  \<open>handle_line num (trim (js ''data: {"choices":[{"delta":{"content":" !"}}]}'')) cur
     = setMessages (append_delta (JStr (js '' !''))) cur\<close>
  by (simp add: parse_eval)

lemma handle_done: \<open>handle_line num (trim (js ''data: [DONE]'')) cur = cur\<close>
  by (simp add: parse_eval)

lemma drain_bonjour:
  "drain num bonjour_stream cur
     = ([], setMessages (append_delta (JStr (js '' !'')))
              (setMessages (append_delta (JStr (js ''Bonjour''))) cur))"
proof -
  let ?l1 = \<open>js ''data: {"choices":[{"delta":{"content":"Bonjour"}}]}''\<close>
  let ?l2 = \<open>js ''data: {"choices":[{"delta":{"content":" !"}}]}''\<close>
  let ?l3 = \<open>js ''data: [DONE]''\<close>
  have n1: "10 \<notin> set ?l1" and n2: "10 \<notin> set ?l2" and n3: "10 \<notin> set ?l3"
    by (simp_all add: js_def)
  have "drain num bonjour_stream cur = drain num (?l1 @ 10 # (?l2 @ 10 # (?l3 @ 10 # []))) cur"
    by (simp add: bonjour_stream_def)
  also have "\<dots> = drain num (?l2 @ 10 # (?l3 @ 10 # [])) (handle_line num (trim ?l1) cur)"
    using n1 by (rule drain_line)
  also have "\<dots> = drain num (?l3 @ 10 # [])
      (handle_line num (trim ?l2) (handle_line num (trim ?l1) cur))"
    using n2 by (rule drain_line)
  also have "\<dots> = drain num []
      (handle_line num (trim ?l3) (handle_line num (trim ?l2) (handle_line num (trim ?l1) cur)))"
    using n3 by (rule drain_line)
  finally show ?thesis
    by (simp only: handle_bonjour handle_bang handle_done drain_no_newline [of "[]", simplified])
qed

lemma send_streams:
  assumes "trim (input st) \<noteq> []" and "\<not> pending st"
    and "\<And>r. fetch b r = FetchResolves res" and "ok res" and "res_body res = Some reads"
  shows "send b st =
     (case stream_phase (number_text b) []
             (st\<lparr>messages := messages st @
                   [\<lparr>role = User, content = input st\<rparr>, \<lparr>role = Assistant, content = []\<rparr>],
                 input := [], pending := True, abortRef := Some (controller b),
                 readerRef := Some (reader b)\<rparr>) reads of
        (exit, st', fx) \<Rightarrow>
          (exit, st',
           (case abortRef st of None \<Rightarrow> [] | Some old \<Rightarrow> [Aborted old]) @
           [Fetched \<lparr>fetch_messages =
                filter (\<lambda>m. \<not> (role m = Assistant \<and> trim (content m) = []))
                  (messages st @
                   [\<lparr>role = User, content = input st\<rparr>, \<lparr>role = Assistant, content = []\<rparr>]),
              fetch_model = model st, signal = controller b\<rparr>] @ fx))"
  using assms by (simp add: send_def Let_def)

lemma append_delta_trailing:
  "append_delta d (xs @ [\<lparr>role = Assistant, content = c\<rparr>])
     = map_option (\<lambda>s. xs @ [\<lparr>role = Assistant, content = c @ s\<rparr>]) (to_string d)"
  by (simp add: append_delta_snoc)

lemma append_delta_trailing2:
  "append_delta d (xs @ [u, \<lparr>role = Assistant, content = c\<rparr>])
     = map_option (\<lambda>s. xs @ [u, \<lparr>role = Assistant, content = c @ s\<rparr>]) (to_string d)"
  using append_delta_trailing [of d "xs @ [u]" c] by simp

lemma render_fields [simp]:
  "input (render v st) = input st" "model (render v st) = model st"
  "pending (render v st) = pending st" "abortRef (render v st) = abortRef st"
  "readerRef (render v st) = readerRef st"
  by (simp_all add: render_def split: option.splits)

lemma shown_finally: "shown (fst (finally_block st)) = shown st"
  by (simp add: shown_def finally_block_def)


lemma extract_bonjour:
  "extractDeltaContentFromSSE num bonjour_stream = [JStr (js ''Bonjour''), JStr (js '' !'')]"
  by (simp add: extractDeltaContentFromSSE_def bonjour_stream_def parse_eval)

text \<open>
  Claim C5, as the code has it. On a page that is mounted, a response whose body gives,
  in whatever chunks, the three lines of \<open>bonjour_stream\<close> and then ends leaves
  \<open>Bonjour !\<close> as the content of the trailing assistant message, which the page shows,
  and the helper of lib/sse.ts extracts the two fragments. In the renderer a line contributes nothing when, once trimmed, it does not
  start with \<open>data:\<close>, when its payload is empty or \<open>[DONE]\<close>, and when its payload
  has no value at \<open>choices[0].delta.content\<close> (the fragment is then the empty string);
  the loop goes on with the next line. The helper tests the marker on the line as it
  is, and skips the same payloads.
\<close>

theorem bonjour_rendered:
  assumes "trim (input st) \<noteq> []" and "\<not> pending st"
    and "\<And>r. fetch b r = FetchResolves res" and "ok res"
    and "res_body res = Some (map Chunk pieces @ [Done])"
    and "concat pieces = bonjour_stream"
    and "10 \<notin> set l"
    and "mounted st"
  shows
    "fst (send b st) = Finished
     \<and> messages (fst (snd (send b st)))
         = messages st @ [\<lparr>role = User, content = input st\<rparr>,
                          \<lparr>role = Assistant, content = js ''Bonjour !''\<rparr>]
     \<and> shown (fst (snd (send b st)))
         = Some (messages st @ [\<lparr>role = User, content = input st\<rparr>,
                                \<lparr>role = Assistant, content = js ''Bonjour !''\<rparr>])
     \<and> extractDeltaContentFromSSE num bonjour_stream = [JStr (js ''Bonjour''), JStr (js '' !'')]
     \<and> (\<not> startsWith (trim l) (js ''data:'') \<longrightarrow>
          drain num (l @ 10 # rest) cur = drain num rest cur)
     \<and> (trim (drop 5 (trim l)) = [] \<or> trim (drop 5 (trim l)) = js ''[DONE]'' \<longrightarrow>
          drain num (l @ 10 # rest) cur = drain num rest cur)
     \<and> (JSON_parse num (trim (drop 5 (trim l))) = Some obj
          \<and> opt (opt (opt (opt (Some obj) (member ''choices'')) first) (member ''delta''))
               (member ''content'') = None \<longrightarrow>
          delta_of obj = JStr [] \<and> drain num (l @ 10 # rest) cur = drain num rest cur)
     \<and> (\<not> startsWith l (js ''data:'') \<or> trim (drop 5 l) = []
          \<or> trim (drop 5 l) = js ''[DONE]'' \<longrightarrow>
          extract_lines num (l # ls) out = extract_lines num ls out)
     \<and> (JSON_parse num (trim (drop 5 l)) = Some obj
          \<and> opt (opt (opt (opt (Some obj) (member ''choices'')) first) (member ''delta''))
               (member ''content'') = None \<longrightarrow>
          extract_lines num (l # ls) out = extract_lines num ls out)"
proof -
  let ?next = "messages st @
    [\<lparr>role = User, content = input st\<rparr>, \<lparr>role = Assistant, content = []\<rparr>]"
  have loop: "read_loop (number_text b) [] (Some ?next) (map Chunk pieces @ [Done])
      = (Broke, [], Some (messages st @ [\<lparr>role = User, content = input st\<rparr>,
                          \<lparr>role = Assistant, content = js ''Bonjour !''\<rparr>]))"
  proof -
    have "read_loop (number_text b) [] (Some ?next) (map Chunk pieces @ [Done])
        = read_loop (number_text b) [] (Some ?next) (Chunk bonjour_stream # [Done])"
      using read_loop_merge [of "[]" "number_text b" "Some ?next" pieces "[Done]"] assms(6)
      by simp
    also have "\<dots> = (Broke, [],
        setMessages (append_delta (JStr (js '' !'')))
          (setMessages (append_delta (JStr (js ''Bonjour'')))
            (Some ((messages st @ [\<lparr>role = User, content = input st\<rparr>])
               @ [\<lparr>role = Assistant, content = []\<rparr>]))))"
      by (simp add: drain_bonjour)
    also have "\<dots> = (Broke, [], Some (messages st @ [\<lparr>role = User, content = input st\<rparr>,
                          \<lparr>role = Assistant, content = js ''Bonjour !''\<rparr>]))"
      by (simp add: setMessages_def append_delta_trailing2 js_def)
    finally show ?thesis .
  qed
  have s: "fst (send b st) = Finished
     \<and> messages (fst (snd (send b st)))
         = messages st @ [\<lparr>role = User, content = input st\<rparr>,
                          \<lparr>role = Assistant, content = js ''Bonjour !''\<rparr>]
     \<and> shown (fst (snd (send b st)))
         = Some (messages st @ [\<lparr>role = User, content = input st\<rparr>,
                                \<lparr>role = Assistant, content = js ''Bonjour !''\<rparr>])"
    using assms(8)
    by (simp add: send_streams [OF assms(1-5)] stream_phase_def shown_def render_def loop
        finally_block_def)
  have line: "drain num (l @ 10 # rest) cur = drain num rest (handle_line num (trim l) cur)"
    using assms(7) by (rule drain_line)
  have a: "\<not> startsWith (trim l) (js ''data:'') \<longrightarrow>
          drain num (l @ 10 # rest) cur = drain num rest cur"
    by (simp add: line handle_line_def)
  have b: "trim (drop 5 (trim l)) = [] \<or> trim (drop 5 (trim l)) = js ''[DONE]'' \<longrightarrow>
          drain num (l @ 10 # rest) cur = drain num rest cur"
    by (auto simp: line handle_line_def Let_def)
  have d: "opt (opt (opt (opt (Some obj) (member ''choices'')) first) (member ''delta''))
               (member ''content'') = None \<Longrightarrow> delta_of obj = JStr []"
    by (simp add: delta_of_def)
  have c: "JSON_parse num (trim (drop 5 (trim l))) = Some obj
          \<and> opt (opt (opt (opt (Some obj) (member ''choices'')) first) (member ''delta''))
               (member ''content'') = None \<longrightarrow>
          delta_of obj = JStr [] \<and> drain num (l @ 10 # rest) cur = drain num rest cur"
    using d by (auto simp: line handle_line_def Let_def)
  have e: "\<not> startsWith l (js ''data:'') \<or> trim (drop 5 l) = []
          \<or> trim (drop 5 l) = js ''[DONE]'' \<longrightarrow>
          extract_lines num (l # ls) out = extract_lines num ls out"
    by (auto simp: Let_def)
  have f: "JSON_parse num (trim (drop 5 l)) = Some obj
          \<and> opt (opt (opt (opt (Some obj) (member ''choices'')) first) (member ''delta''))
               (member ''content'') = None \<longrightarrow>
          extract_lines num (l # ls) out = extract_lines num ls out"
    using d by (auto simp: Let_def)
  from s extract_bonjour a b c e f show ?thesis by blast
qed

theorem bonjour_rendered_witness:
  \<open>trim (input initial_page) \<noteq> [] \<and> \<not> pending initial_page
   \<and> concat [take 12 bonjour_stream, drop 12 bonjour_stream] = bonjour_stream
   \<and> mounted initial_page
   \<and> fst (send (streaming_browser
          (map Chunk [take 12 bonjour_stream, drop 12 bonjour_stream] @ [Done])) initial_page)
       = Finished
   \<and> messages (fst (snd (send (streaming_browser
          (map Chunk [take 12 bonjour_stream, drop 12 bonjour_stream] @ [Done])) initial_page)))
       = messages initial_page @ [\<lparr>role = User, content = input initial_page\<rparr>,
            \<lparr>role = Assistant, content = js ''Bonjour !''\<rparr>]
   \<and> shown (fst (snd (send (streaming_browser
          (map Chunk [take 12 bonjour_stream, drop 12 bonjour_stream] @ [Done])) initial_page)))
       = Some (messages initial_page @ [\<lparr>role = User, content = input initial_page\<rparr>,
            \<lparr>role = Assistant, content = js ''Bonjour !''\<rparr>])
   \<and> 10 \<notin> set (js ''event: ping'')
   \<and> \<not> startsWith (trim (js ''event: ping'')) (js ''data:'')
   \<and> drain id (js ''event: ping'' @ 10 # []) (Some []) = drain id [] (Some [])
   \<and> 10 \<notin> set (js ''data: [DONE]'')
   \<and> trim (drop 5 (trim (js ''data: [DONE]''))) = js ''[DONE]''
   \<and> drain id (js ''data: [DONE]'' @ 10 # []) (Some []) = drain id [] (Some [])
   \<and> 10 \<notin> set (js ''data: {"id":"1"}'')
   \<and> JSON_parse id (trim (drop 5 (trim (js ''data: {"id":"1"}''))))
       = Some (JObj [(js ''id'', JStr (js ''1''))])
   \<and> opt (opt (opt (opt (Some (JObj [(js ''id'', JStr (js ''1''))])) (member ''choices'')) first)
          (member ''delta'')) (member ''content'') = None
   \<and> delta_of (JObj [(js ''id'', JStr (js ''1''))]) = JStr []
   \<and> drain id (js ''data: {"id":"1"}'' @ 10 # []) (Some []) = drain id [] (Some [])
   \<and> extract_lines id [js ''event: ping''] [] = extract_lines id [] []
   \<and> extract_lines id [js ''data: {"id":"1"}''] [] = extract_lines id [] []\<close>
proof -
  let ?b = "streaming_browser
    (map Chunk [take 12 bonjour_stream, drop 12 bonjour_stream] @ [Done])"
  let ?o = \<open>JObj [(js ''id'', JStr (js ''1''))]\<close>
  have h1: "trim (input initial_page) \<noteq> []" by (simp add: initial_page_def trim_def is_ws_def js_def)
  have h2: "\<not> pending initial_page" by (simp add: initial_page_def)
  have h3: "\<And>r. fetch ?b r
      = FetchResolves \<lparr>ok = True,
          res_body = Some (map Chunk [take 12 bonjour_stream, drop 12 bonjour_stream] @ [Done]),
          res_text = []\<rparr>"
    by (simp add: streaming_browser_def)
  have h4: "ok \<lparr>ok = True,
          res_body = Some (map Chunk [take 12 bonjour_stream, drop 12 bonjour_stream] @ [Done]),
          res_text = []\<rparr>" by simp
  have h5: "res_body \<lparr>ok = True,
          res_body = Some (map Chunk [take 12 bonjour_stream, drop 12 bonjour_stream] @ [Done]),
          res_text = []\<rparr> = Some (map Chunk [take 12 bonjour_stream, drop 12 bonjour_stream] @ [Done])"
    by simp
  have h6: "concat [take 12 bonjour_stream, drop 12 bonjour_stream] = bonjour_stream" by simp
  have h7: "mounted initial_page" by (simp add: initial_page_def)
  have n1: \<open>10 \<notin> set (js ''event: ping'')\<close> by (simp add: js_def)
  have n2: \<open>10 \<notin> set (js ''data: [DONE]'')\<close> by (simp add: js_def)
  have n3: \<open>10 \<notin> set (js ''data: {"id":"1"}'')\<close> by (simp add: js_def)
  have a1: \<open>\<not> startsWith (trim (js ''event: ping'')) (js ''data:'')\<close>
    by (simp add: parse_eval)
  have a2: \<open>trim (drop 5 (trim (js ''data: [DONE]''))) = js ''[DONE]''\<close>
    by (simp add: parse_eval)
  have a3: \<open>JSON_parse id (trim (drop 5 (trim (js ''data: {"id":"1"}'')))) = Some ?o\<close>
    by (simp add: parse_eval)
  have a4: \<open>opt (opt (opt (opt (Some ?o) (member ''choices'')) first)
          (member ''delta'')) (member ''content'') = None\<close>
    by (simp add: parse_eval)
  have a5: \<open>\<not> startsWith (js ''event: ping'') (js ''data:'')\<close>
    by (simp add: parse_eval)
  have a6: \<open>JSON_parse id (trim (drop 5 (js ''data: {"id":"1"}''))) = Some ?o\<close>
    by (simp add: parse_eval)
  note t1 = bonjour_rendered [OF h1 h2 h3 h4 h5 h6 n1 h7, where num = id and rest = "[]"
      and cur = "Some []" and ls = "[]" and out = "[]" and obj = ?o]
  note t2 = bonjour_rendered [OF h1 h2 h3 h4 h5 h6 n2 h7, where num = id and rest = "[]"
      and cur = "Some []" and ls = "[]" and out = "[]" and obj = ?o]
  note t3 = bonjour_rendered [OF h1 h2 h3 h4 h5 h6 n3 h7, where num = id and rest = "[]"
      and cur = "Some []" and ls = "[]" and out = "[]" and obj = ?o]
  from h1 h2 h6 h7 n1 n2 n3 a1 a2 a3 a4 a5 a6 t1 t2 t3 show ?thesis by blast
qed

text \<open>
  The claim as it was stated fails in the renderer for a line that has whitespace before
  the marker: the line does not start with \<open>data:\<close>, the renderer trims it first and
  appends its fragment, and the helper of lib/sse.ts skips it.
\<close>

theorem marker_after_whitespace_counterexample:
  \<open>\<not> startsWith (js '' data: {"choices":[{"delta":{"content":"x"}}]}'') (js ''data:'')
   \<and> read_loop id [] (Some [\<lparr>role = Assistant, content = []\<rparr>])
         [Chunk (js '' data: {"choices":[{"delta":{"content":"x"}}]}'' @ [10]), Done]
       = (Broke, [], Some [\<lparr>role = Assistant, content = js ''x''\<rparr>])
   \<and> extractDeltaContentFromSSE id (js '' data: {"choices":[{"delta":{"content":"x"}}]}'' @ [10])
       = []\<close>
proof -
  let ?l = \<open>js '' data: {"choices":[{"delta":{"content":"x"}}]}''\<close>
  have n: "10 \<notin> set ?l" by (simp add: js_def)
  have a: "\<not> startsWith ?l (js ''data:'')" by (simp add: parse_eval)
  have "drain id (?l @ 10 # []) (Some [\<lparr>role = Assistant, content = []\<rparr>])
      = drain id [] (handle_line id (trim ?l) (Some [\<lparr>role = Assistant, content = []\<rparr>]))"
    using n by (rule drain_line)
  also have "\<dots> = ([], Some [\<lparr>role = Assistant, content = js ''x''\<rparr>])"
    by (simp add: drain_no_newline parse_eval setMessages_def append_delta_def last_msg_def
        set_last_def)
  finally have b: "read_loop id [] (Some [\<lparr>role = Assistant, content = []\<rparr>]) [Chunk (?l @ [10]), Done]
       = (Broke, [], Some [\<lparr>role = Assistant, content = js ''x''\<rparr>])"
    by simp
  have c: "extractDeltaContentFromSSE id (?l @ [10]) = []"
    by (simp add: extractDeltaContentFromSSE_def parse_eval)
  from a b c show ?thesis by blast
qed

lemma handle_line_None: "handle_line num line None = None"
  by (simp add: handle_line_def setMessages_def Let_def split: option.splits)

lemma drain_None: "snd (drain num buffer None) = None"
proof (induction "length buffer" arbitrary: buffer rule: less_induct)
  case less
  show ?case
  proof (cases "indexOf buffer 10")
    case None
    then have "10 \<notin> set buffer" by (simp add: indexOf_None_iff)
    then show ?thesis by (simp add: drain_no_newline)
  next
    case (Some idx)
    have "length (drop (idx + 1) buffer) < length buffer"
      using indexOf_less [OF Some] by simp
    from less [OF this] show ?thesis
      using Some by (subst drain.simps) (simp add: handle_line_None)
  qed
qed

lemma read_loop_None: "snd (snd (read_loop num buffer None reads)) = None"
proof (induction reads arbitrary: buffer)
  case Nil
  show ?case by simp
next
  case (Cons r reads)
  show ?case
  proof (cases r)
    case (Chunk v)
    obtain b' cur' where d: "drain num (buffer @ v) None = (b', cur')"
      by (cases "drain num (buffer @ v) None")
    with drain_None [of num "buffer @ v"] have "cur' = None" by simp
    with Cons.IH [of b'] Chunk d show ?thesis by simp
  qed simp_all
qed

lemma read_loop_exit:
  "fst (read_loop num buffer cur reads) = fst (read_loop num buffer' cur' reads)"
proof (induction reads arbitrary: buffer cur buffer' cur')
  case Nil
  show ?case by simp
next
  case (Cons r reads)
  show ?case
  proof (cases r)
    case (Chunk v)
    obtain b1 c1 where d1: "drain num (buffer @ v) cur = (b1, c1)"
      by (cases "drain num (buffer @ v) cur")
    obtain b2 c2 where d2: "drain num (buffer' @ v) cur' = (b2, c2)"
      by (cases "drain num (buffer' @ v) cur'")
    from Cons.IH [of b1 c1 b2 c2] Chunk d1 d2 show ?thesis by simp
  qed simp_all
qed

lemma handle_line_unmounts:
  "handle_line num line (Some (xs @ [\<lparr>role = Assistant, content = c\<rparr>])) = None
     \<longleftrightarrow> startsWith line (js ''data:'') \<and> trim (drop 5 line) \<noteq> []
         \<and> trim (drop 5 line) \<noteq> js ''[DONE]''
         \<and> (\<exists>obj. JSON_parse num (trim (drop 5 line)) = Some obj
               \<and> truthy (delta_of obj) \<and> to_string (delta_of obj) = None)"
  by (auto simp: handle_line_def setMessages_def Let_def append_delta_trailing
      split: option.splits)

lemma handle_line_trailing:
  "handle_line num line (Some (xs @ [\<lparr>role = Assistant, content = c\<rparr>])) = None
   \<or> (\<exists>c'. handle_line num line (Some (xs @ [\<lparr>role = Assistant, content = c\<rparr>]))
         = Some (xs @ [\<lparr>role = Assistant, content = c @ c'\<rparr>]))"
proof (cases "handle_line num line (Some (xs @ [\<lparr>role = Assistant, content = c\<rparr>]))
    = Some (xs @ [\<lparr>role = Assistant, content = c\<rparr>])")
  case True
  then show ?thesis by (intro disjI2 exI [of _ "[]"]) simp
next
  case False
  then obtain d where "handle_line num line (Some (xs @ [\<lparr>role = Assistant, content = c\<rparr>]))
      = append_delta d (xs @ [\<lparr>role = Assistant, content = c\<rparr>])"
    by (auto simp: handle_line_def setMessages_def Let_def split: if_splits option.splits)
  then show ?thesis by (cases "to_string d") (simp_all add: append_delta_trailing)
qed

lemma drain_trailing:
  "snd (drain num buffer (Some (xs @ [\<lparr>role = Assistant, content = c\<rparr>]))) = None
   \<or> (\<exists>c'. snd (drain num buffer (Some (xs @ [\<lparr>role = Assistant, content = c\<rparr>])))
         = Some (xs @ [\<lparr>role = Assistant, content = c @ c'\<rparr>]))"
proof (induction "length buffer" arbitrary: buffer c rule: less_induct)
  case less
  show ?case
  proof (cases "indexOf buffer 10")
    case None
    then have "10 \<notin> set buffer" by (simp add: indexOf_None_iff)
    then show ?thesis by (intro disjI2 exI [of _ "[]"]) (simp add: drain_no_newline)
  next
    case (Some idx)
    have step: "drain num buffer (Some (xs @ [\<lparr>role = Assistant, content = c\<rparr>]))
        = drain num (drop (idx + 1) buffer)
            (handle_line num (trim (take idx buffer))
               (Some (xs @ [\<lparr>role = Assistant, content = c\<rparr>])))"
      using Some by (subst drain.simps) simp
    have shorter: "length (drop (idx + 1) buffer) < length buffer"
      using indexOf_less [OF Some] by simp
    from handle_line_trailing [of num "trim (take idx buffer)" xs c]
    show ?thesis
    proof
      assume "handle_line num (trim (take idx buffer))
          (Some (xs @ [\<lparr>role = Assistant, content = c\<rparr>])) = None"
      then show ?thesis by (simp add: step drain_None)
    next
      assume "\<exists>c'. handle_line num (trim (take idx buffer))
          (Some (xs @ [\<lparr>role = Assistant, content = c\<rparr>]))
            = Some (xs @ [\<lparr>role = Assistant, content = c @ c'\<rparr>])"
      then obtain c1 where h: "handle_line num (trim (take idx buffer))
          (Some (xs @ [\<lparr>role = Assistant, content = c\<rparr>]))
            = Some (xs @ [\<lparr>role = Assistant, content = c @ c1\<rparr>])" by blast
      from less [OF shorter, of "c @ c1"] show ?thesis
      proof
        assume "snd (drain num (drop (idx + 1) buffer)
            (Some (xs @ [\<lparr>role = Assistant, content = c @ c1\<rparr>]))) = None"
        then show ?thesis by (simp add: step h)
      next
        assume "\<exists>c'. snd (drain num (drop (idx + 1) buffer)
            (Some (xs @ [\<lparr>role = Assistant, content = c @ c1\<rparr>])))
              = Some (xs @ [\<lparr>role = Assistant, content = (c @ c1) @ c'\<rparr>])"
        then obtain c2 where "snd (drain num (drop (idx + 1) buffer)
            (Some (xs @ [\<lparr>role = Assistant, content = c @ c1\<rparr>])))
              = Some (xs @ [\<lparr>role = Assistant, content = (c @ c1) @ c2\<rparr>])" by blast
        then have "snd (drain num buffer (Some (xs @ [\<lparr>role = Assistant, content = c\<rparr>])))
            = Some (xs @ [\<lparr>role = Assistant, content = c @ (c1 @ c2)\<rparr>])"
          by (simp add: step h)
        then show ?thesis by blast
      qed
    qed
  qed
qed

lemma read_loop_trailing:
  "snd (snd (read_loop num buffer (Some (xs @ [\<lparr>role = Assistant, content = c\<rparr>])) reads)) = None
   \<or> (\<exists>c'. snd (snd (read_loop num buffer (Some (xs @ [\<lparr>role = Assistant, content = c\<rparr>])) reads))
         = Some (xs @ [\<lparr>role = Assistant, content = c @ c'\<rparr>]))"
proof (induction reads arbitrary: buffer c)
  case Nil
  show ?case by (intro disjI2 exI [of _ "[]"]) simp
next
  case (Cons r reads)
  show ?case
  proof (cases r)
    case (Chunk v)
    obtain b' cur' where d: "drain num (buffer @ v) (Some (xs @ [\<lparr>role = Assistant, content = c\<rparr>]))
        = (b', cur')"
      by (cases "drain num (buffer @ v) (Some (xs @ [\<lparr>role = Assistant, content = c\<rparr>]))")
    have step: "read_loop num buffer (Some (xs @ [\<lparr>role = Assistant, content = c\<rparr>])) (r # reads)
        = read_loop num b' cur' reads"
      using Chunk d by simp
    from drain_trailing [of num "buffer @ v" xs c] d
    have "cur' = None \<or> (\<exists>c'. cur' = Some (xs @ [\<lparr>role = Assistant, content = c @ c'\<rparr>]))"
      by simp
    then show ?thesis
    proof
      assume "cur' = None"
      then show ?thesis by (simp add: step read_loop_None)
    next
      assume "\<exists>c'. cur' = Some (xs @ [\<lparr>role = Assistant, content = c @ c'\<rparr>])"
      then obtain c1 where c1: "cur' = Some (xs @ [\<lparr>role = Assistant, content = c @ c1\<rparr>])"
        by blast
      from Cons.IH [of b' "c @ c1"] show ?thesis
      proof
        assume "snd (snd (read_loop num b'
            (Some (xs @ [\<lparr>role = Assistant, content = c @ c1\<rparr>])) reads)) = None"
        then show ?thesis by (simp add: step c1)
      next
        assume "\<exists>c'. snd (snd (read_loop num b'
            (Some (xs @ [\<lparr>role = Assistant, content = c @ c1\<rparr>])) reads))
              = Some (xs @ [\<lparr>role = Assistant, content = (c @ c1) @ c'\<rparr>])"
        then obtain c2 where "snd (snd (read_loop num b'
            (Some (xs @ [\<lparr>role = Assistant, content = c @ c1\<rparr>])) reads))
              = Some (xs @ [\<lparr>role = Assistant, content = (c @ c1) @ c2\<rparr>])" by blast
        then have "snd (snd (read_loop num buffer
            (Some (xs @ [\<lparr>role = Assistant, content = c\<rparr>])) (r # reads)))
              = Some (xs @ [\<lparr>role = Assistant, content = c @ (c1 @ c2)\<rparr>])"
          by (simp add: step c1)
        then show ?thesis by blast
      qed
    qed
  next
    case Done
    then show ?thesis by (intro disjI2 exI [of _ "[]"]) simp
  next
    case (Failed err)
    then show ?thesis by (intro disjI2 exI [of _ "[]"]) simp
  qed
qed

lemma split_lines_line:
  "10 \<notin> set l \<Longrightarrow> split_lines (l @ 10 # r) = l # split_lines r"
  by (induction l) (auto split: list.splits)

lemma drain_converts:
  assumes "\<forall>l\<in>set (split_lines (buffer @ rest)). \<forall>obj.
      JSON_parse num (trim (drop 5 (trim l))) = Some obj \<longrightarrow> to_string (delta_of obj) \<noteq> None"
  shows "(\<exists>c'. snd (drain num buffer (Some (xs @ [\<lparr>role = Assistant, content = c\<rparr>])))
            = Some (xs @ [\<lparr>role = Assistant, content = c @ c'\<rparr>]))
     \<and> (\<forall>l\<in>set (split_lines (fst (drain num buffer
              (Some (xs @ [\<lparr>role = Assistant, content = c\<rparr>]))) @ rest)). \<forall>obj.
          JSON_parse num (trim (drop 5 (trim l))) = Some obj \<longrightarrow>
          to_string (delta_of obj) \<noteq> None)"
  using assms
proof (induction "length buffer" arbitrary: buffer c rule: less_induct)
  case less
  show ?case
  proof (cases "indexOf buffer 10")
    case None
    then have "10 \<notin> set buffer" by (simp add: indexOf_None_iff)
    then have "drain num buffer (Some (xs @ [\<lparr>role = Assistant, content = c\<rparr>]))
        = (buffer, Some (xs @ [\<lparr>role = Assistant, content = c @ []\<rparr>]))"
      by (simp add: drain_no_newline)
    with less.prems show ?thesis by (metis fst_conv snd_conv)
  next
    case (Some idx)
    let ?l = "take idx buffer" and ?r = "drop (idx + 1) buffer"
    from split_at_newline [OF Some]
    have b: "buffer = ?l @ 10 # ?r" and n: "10 \<notin> set ?l" by simp_all
    have e: "buffer @ rest = ?l @ 10 # (?r @ rest)"
      using b by (metis append.assoc append_Cons)
    have sp: "split_lines (buffer @ rest) = ?l # split_lines (?r @ rest)"
      by (subst e) (rule split_lines_line [OF n])
    have step: "drain num buffer (Some (xs @ [\<lparr>role = Assistant, content = c\<rparr>]))
        = drain num ?r (handle_line num (trim ?l)
            (Some (xs @ [\<lparr>role = Assistant, content = c\<rparr>])))"
      using Some by (subst drain.simps) simp
    have "handle_line num (trim ?l) (Some (xs @ [\<lparr>role = Assistant, content = c\<rparr>])) \<noteq> None"
      using less.prems by (auto simp: sp handle_line_unmounts)
    with handle_line_trailing [of num "trim ?l" xs c] obtain c1 where
      h: "handle_line num (trim ?l) (Some (xs @ [\<lparr>role = Assistant, content = c\<rparr>]))
        = Some (xs @ [\<lparr>role = Assistant, content = c @ c1\<rparr>])" by blast
    have shorter: "length ?r < length buffer" using indexOf_less [OF Some] by simp
    have rest': "\<forall>l\<in>set (split_lines (?r @ rest)). \<forall>obj.
        JSON_parse num (trim (drop 5 (trim l))) = Some obj \<longrightarrow> to_string (delta_of obj) \<noteq> None"
      using less.prems by (simp add: sp)
    from less.hyps [OF shorter rest', of "c @ c1"] obtain c2 where
      d: "snd (drain num ?r (Some (xs @ [\<lparr>role = Assistant, content = c @ c1\<rparr>])))
          = Some (xs @ [\<lparr>role = Assistant, content = (c @ c1) @ c2\<rparr>])"
      and k: "\<forall>l\<in>set (split_lines (fst (drain num ?r
              (Some (xs @ [\<lparr>role = Assistant, content = c @ c1\<rparr>]))) @ rest)). \<forall>obj.
          JSON_parse num (trim (drop 5 (trim l))) = Some obj \<longrightarrow>
          to_string (delta_of obj) \<noteq> None"
      by blast
    have "snd (drain num buffer (Some (xs @ [\<lparr>role = Assistant, content = c\<rparr>])))
        = Some (xs @ [\<lparr>role = Assistant, content = c @ (c1 @ c2)\<rparr>])"
      using d by (simp add: step h)
    moreover have "\<forall>l\<in>set (split_lines (fst (drain num buffer
              (Some (xs @ [\<lparr>role = Assistant, content = c\<rparr>]))) @ rest)). \<forall>obj.
          JSON_parse num (trim (drop 5 (trim l))) = Some obj \<longrightarrow>
          to_string (delta_of obj) \<noteq> None"
      using k by (simp add: step h)
    ultimately show ?thesis by blast
  qed
qed

lemma read_loop_converts:
  assumes "\<forall>l\<in>set (split_lines (buffer @ received reads)). \<forall>obj.
      JSON_parse num (trim (drop 5 (trim l))) = Some obj \<longrightarrow> to_string (delta_of obj) \<noteq> None"
  shows "\<exists>c'. snd (snd (read_loop num buffer
            (Some (xs @ [\<lparr>role = Assistant, content = c\<rparr>])) reads))
          = Some (xs @ [\<lparr>role = Assistant, content = c @ c'\<rparr>])"
  using assms
proof (induction reads arbitrary: buffer c)
  case Nil
  show ?case by (intro exI [of _ "[]"]) simp
next
  case (Cons r reads)
  show ?case
  proof (cases r)
    case (Chunk v)
    obtain b' cur' where d: "drain num (buffer @ v) (Some (xs @ [\<lparr>role = Assistant, content = c\<rparr>]))
        = (b', cur')"
      by (cases "drain num (buffer @ v) (Some (xs @ [\<lparr>role = Assistant, content = c\<rparr>]))")
    have p: "\<forall>l\<in>set (split_lines ((buffer @ v) @ received reads)). \<forall>obj.
        JSON_parse num (trim (drop 5 (trim l))) = Some obj \<longrightarrow> to_string (delta_of obj) \<noteq> None"
      using Cons.prems Chunk by simp
    from drain_converts [OF p, of xs c] d obtain c1 where
      c1: "cur' = Some (xs @ [\<lparr>role = Assistant, content = c @ c1\<rparr>])"
      and k: "\<forall>l\<in>set (split_lines (b' @ received reads)). \<forall>obj.
        JSON_parse num (trim (drop 5 (trim l))) = Some obj \<longrightarrow> to_string (delta_of obj) \<noteq> None"
      by auto
    from Cons.IH [OF k, of "c @ c1"] obtain c2 where
      "snd (snd (read_loop num b' (Some (xs @ [\<lparr>role = Assistant, content = c @ c1\<rparr>])) reads))
        = Some (xs @ [\<lparr>role = Assistant, content = (c @ c1) @ c2\<rparr>])" by blast
    then have "snd (snd (read_loop num buffer
          (Some (xs @ [\<lparr>role = Assistant, content = c\<rparr>])) (r # reads)))
        = Some (xs @ [\<lparr>role = Assistant, content = c @ (c1 @ c2)\<rparr>])"
      using Chunk d c1 by simp
    then show ?thesis by blast
  next
    case Done
    then show ?thesis by (intro exI [of _ "[]"]) simp
  next
    case (Failed err)
    then show ?thesis by (intro exI [of _ "[]"]) simp
  qed
qed

lemma show_error_trailing:
  "show_error err (xs @ [\<lparr>role = Assistant, content = c\<rparr>])
     = xs @ [\<lparr>role = Assistant, content = c @ [10, 10] @ warning @ error_text err\<rparr>]"
  by (simp add: show_error_def last_msg_snoc set_last_snoc)

lemma shown_render:
  "snd (snd (read_loop num buffer (shown st) reads)) = v \<Longrightarrow> v = None \<or> mounted st"
  using read_loop_None [of num buffer reads] by (cases "mounted st") (auto simp: shown_def)

lemma stream_phase_shown:
  "shown (fst (snd (stream_phase num buffer st reads)))
     = (case read_loop num buffer (shown st) reads of
          (Threw err, b', cur) \<Rightarrow> if is_abort err then cur else map_option (show_error err) cur
        | (e, b', cur) \<Rightarrow> cur)"
proof -
  obtain e b' cur where r: "read_loop num buffer (shown st) reads = (e, b', cur)"
    by (cases "read_loop num buffer (shown st) reads")
  then have "cur = None \<or> mounted st" using shown_render [of num buffer st reads cur] by simp
  then have k: "shown (render cur st) = cur"
    "shown (render (setMessages (\<lambda>c. Some (show_error err c)) cur) st)
       = map_option (show_error err) cur" for err
    by (cases cur; auto simp: shown_def render_def setMessages_def)+
  show ?thesis
    by (cases e) (simp_all add: r stream_phase_def shown_finally k
        split: prod.splits)
qed

lemma network_error_not_abort: "\<not> is_abort network_error"
  by (simp add: is_abort_def network_error_def js_def upper_def)

lemma abort_error_is_abort: "is_abort abort_error"
  by (simp add: is_abort_def abort_error_def js_def)

lemma error_text_network_error: "error_text network_error = js ''network error''"
  by (simp add: error_text_def network_error_def js_def)

lemmas page_eval =
  streaming_page_def initial_page_def streaming_browser_def
  stream_phase_def finally_block_def stop_def show_error_def shown_def render_def
  setMessages_def
  network_error_not_abort abort_error_is_abort error_text_network_error
  warning_def last_msg_def set_last_def

text \<open>
  Claim C9. Fragments are appended to a trailing assistant message only, so after some
  were appended the page shows a conversation that ends with an assistant message whose
  content \<open>c\<close> is what was rendered so far. From such a state no exit removes it:
  \<open>stop\<close> leaves what is shown as it is; when the next read is the end of the stream,
  or rejects with an error that \<open>is_abort\<close> accepts, the \<open>finally\<close> block leaves it as
  it is; when the next read rejects with another error the error is appended after
  \<open>c\<close>. When the loop goes on with more reads before it ends, before or after a
  \<open>stop\<close>, whatever is shown at the end has the same earlier messages and a trailing
  content that starts with \<open>c\<close>. Nothing is shown at the end only when an updater of
  the loop raised, which no exit does, and a line makes the updater raise exactly when
  its fragment is a value whose conversion to a string raises; a string is never such
  a value. So when no line of the text that the loop receives has such a fragment, the
  page shows the earlier messages and a trailing content that starts with \<open>c\<close>.
\<close>

theorem rendered_text_kept:
  assumes "shown st = Some (xs @ [\<lparr>role = Assistant, content = c\<rparr>])"
  shows
    "shown (fst (stop st)) = shown st
     \<and> shown (fst (snd (stream_phase num buffer st (Done # reads)))) = shown st
     \<and> (is_abort err \<longrightarrow>
          shown (fst (snd (stream_phase num buffer st (Failed err # reads)))) = shown st)
     \<and> (\<not> is_abort err \<longrightarrow>
          shown (fst (snd (stream_phase num buffer st (Failed err # reads))))
            = Some (xs @ [\<lparr>role = Assistant,
                          content = c @ [10, 10] @ warning @ error_text err\<rparr>]))
     \<and> (shown (fst (snd (stream_phase num buffer st reads))) = None
          \<or> (\<exists>c'. shown (fst (snd (stream_phase num buffer st reads)))
                = Some (xs @ [\<lparr>role = Assistant, content = c @ c'\<rparr>])))
     \<and> (shown (fst (snd (stream_phase num buffer (fst (stop st)) reads))) = None
          \<or> (\<exists>c'. shown (fst (snd (stream_phase num buffer (fst (stop st)) reads)))
                = Some (xs @ [\<lparr>role = Assistant, content = c @ c'\<rparr>])))
     \<and> (shown (fst (snd (stream_phase num buffer st reads))) = None
          \<longleftrightarrow> snd (snd (read_loop num buffer (shown st) reads)) = None)
     \<and> ((\<forall>l\<in>set (split_lines (buffer @ received reads)). \<forall>obj.
            JSON_parse num (trim (drop 5 (trim l))) = Some obj \<longrightarrow>
            to_string (delta_of obj) \<noteq> None) \<longrightarrow>
          (\<exists>c'. shown (fst (snd (stream_phase num buffer st reads)))
                = Some (xs @ [\<lparr>role = Assistant, content = c @ c'\<rparr>])))
     \<and> (handle_line num line (shown st) = None
          \<longleftrightarrow> startsWith line (js ''data:'') \<and> trim (drop 5 line) \<noteq> []
              \<and> trim (drop 5 line) \<noteq> js ''[DONE]''
              \<and> (\<exists>obj. JSON_parse num (trim (drop 5 line)) = Some obj
                    \<and> truthy (delta_of obj) \<and> to_string (delta_of obj) = None))
     \<and> to_string (JStr s) = Some s"
proof -
  have a: "shown (fst (stop st)) = shown st" by (simp add: stop_def shown_def)
  have b: "shown (fst (snd (stream_phase num buffer st (Done # reads)))) = shown st"
    by (simp add: stream_phase_shown)
  have c1: "is_abort err \<longrightarrow>
      shown (fst (snd (stream_phase num buffer st (Failed err # reads)))) = shown st"
    by (simp add: stream_phase_shown)
  have c2: "\<not> is_abort err \<longrightarrow>
      shown (fst (snd (stream_phase num buffer st (Failed err # reads))))
        = Some (xs @ [\<lparr>role = Assistant, content = c @ [10, 10] @ warning @ error_text err\<rparr>])"
    by (simp add: stream_phase_shown assms show_error_trailing)
  have d: "(shown (fst (snd (stream_phase num buffer s reads))) = None
          \<or> (\<exists>c'. shown (fst (snd (stream_phase num buffer s reads)))
                = Some (xs @ [\<lparr>role = Assistant, content = c @ c'\<rparr>])))
      \<and> (shown (fst (snd (stream_phase num buffer s reads))) = None
          \<longleftrightarrow> snd (snd (read_loop num buffer (shown s) reads)) = None)"
    if s: "shown s = Some (xs @ [\<lparr>role = Assistant, content = c\<rparr>])" for s
  proof -
    obtain e b' cur where r: "read_loop num buffer (shown s) reads = (e, b', cur)"
      by (cases "read_loop num buffer (shown s) reads")
    from read_loop_trailing [of num buffer xs c reads] r s
    have "cur = None \<or> (\<exists>c1. cur = Some (xs @ [\<lparr>role = Assistant, content = c @ c1\<rparr>]))"
      by simp
    then show ?thesis
    proof
      assume "cur = None"
      with r show ?thesis by (simp add: stream_phase_shown split: loop_exit.splits)
    next
      assume "\<exists>c1. cur = Some (xs @ [\<lparr>role = Assistant, content = c @ c1\<rparr>])"
      then obtain c1 where c1: "cur = Some (xs @ [\<lparr>role = Assistant, content = c @ c1\<rparr>])"
        by blast
      show ?thesis
      proof (cases "\<exists>err. e = Threw err \<and> \<not> is_abort err")
        case True
        then obtain err where "e = Threw err" and "\<not> is_abort err" by blast
        with r c1 have "shown (fst (snd (stream_phase num buffer s reads)))
            = Some (xs @ [\<lparr>role = Assistant,
                content = c @ (c1 @ [10, 10] @ warning @ error_text err)\<rparr>])"
          by (simp add: stream_phase_shown show_error_trailing)
        with r c1 show ?thesis by simp
      next
        case False
        with r c1 have "shown (fst (snd (stream_phase num buffer s reads)))
            = Some (xs @ [\<lparr>role = Assistant, content = c @ c1\<rparr>])"
          by (auto simp: stream_phase_shown split: loop_exit.splits)
        with r c1 show ?thesis by simp
      qed
    qed
  qed
  have e: "handle_line num line (shown st) = None
          \<longleftrightarrow> startsWith line (js ''data:'') \<and> trim (drop 5 line) \<noteq> []
              \<and> trim (drop 5 line) \<noteq> js ''[DONE]''
              \<and> (\<exists>obj. JSON_parse num (trim (drop 5 line)) = Some obj
                    \<and> truthy (delta_of obj) \<and> to_string (delta_of obj) = None)"
    unfolding assms by (rule handle_line_unmounts)
  have f: "to_string (JStr s) = Some s" by simp
  from a have s': "shown (fst (stop st)) = Some (xs @ [\<lparr>role = Assistant, content = c\<rparr>])"
    using assms by simp
  have g: "(\<forall>l\<in>set (split_lines (buffer @ received reads)). \<forall>obj.
            JSON_parse num (trim (drop 5 (trim l))) = Some obj \<longrightarrow>
            to_string (delta_of obj) \<noteq> None) \<longrightarrow>
          (\<exists>c'. shown (fst (snd (stream_phase num buffer st reads)))
                = Some (xs @ [\<lparr>role = Assistant, content = c @ c'\<rparr>]))"
  proof
    assume "\<forall>l\<in>set (split_lines (buffer @ received reads)). \<forall>obj.
            JSON_parse num (trim (drop 5 (trim l))) = Some obj \<longrightarrow>
            to_string (delta_of obj) \<noteq> None"
    from read_loop_converts [OF this, of xs c]
    have "snd (snd (read_loop num buffer (shown st) reads)) \<noteq> None"
      unfolding assms by auto
    with d [OF assms]
    show "\<exists>c'. shown (fst (snd (stream_phase num buffer st reads)))
                = Some (xs @ [\<lparr>role = Assistant, content = c @ c'\<rparr>])"
      by blast
  qed
  from a b c1 c2 d [OF assms] d [OF s'] e f g show ?thesis by blast
qed

theorem rendered_text_kept_witness:
  \<open>shown streaming_page
     = Some ([\<lparr>role = User, content = js ''hi''\<rparr>] @ [\<lparr>role = Assistant, content = js ''Bon''\<rparr>])
   \<and> shown (fst (stop streaming_page)) = shown streaming_page
   \<and> shown (fst (snd (stream_phase id [] streaming_page [Done]))) = shown streaming_page
   \<and> is_abort abort_error
   \<and> shown (fst (snd (stream_phase id [] streaming_page [Failed abort_error])))
       = shown streaming_page
   \<and> \<not> is_abort network_error
   \<and> shown (fst (snd (stream_phase id [] streaming_page [Failed network_error])))
       = Some ([\<lparr>role = User, content = js ''hi''\<rparr>]
           @ [\<lparr>role = Assistant,
               content = js ''Bon'' @ [10, 10] @ warning @ error_text network_error\<rparr>])
   \<and> shown (fst (snd (stream_phase id [] streaming_page
         [Chunk (js ''data: {"choices":[{"delta":{"content":"jour"}}]}'' @ [10]),
          Failed network_error])))
       = Some [\<lparr>role = User, content = js ''hi''\<rparr>,
          \<lparr>role = Assistant,
           content = js ''Bonjour'' @ [10, 10] @ warning @ js ''network error''\<rparr>]
   \<and> shown (fst (snd (stream_phase id [] (fst (stop streaming_page))
         [Chunk (js ''data: {"choices":[{"delta":{"content":"jour"}}]}'' @ [10]),
          Failed abort_error])))
       = Some [\<lparr>role = User, content = js ''hi''\<rparr>, \<lparr>role = Assistant, content = js ''Bonjour''\<rparr>]
   \<and> split_lines ([] @ received
         [Chunk (js ''data: {"choices":[{"delta":{"content":"jour"}}]}'' @ [10]),
          Failed network_error])
       = [js ''data: {"choices":[{"delta":{"content":"jour"}}]}'', []]
   \<and> JSON_parse id
         (trim (drop 5 (trim (js ''data: {"choices":[{"delta":{"content":"jour"}}]}''))))
       = Some (JObj [(js ''choices'',
                 JArr [JObj [(js ''delta'', JObj [(js ''content'', JStr (js ''jour''))])]])])
   \<and> to_string (delta_of (JObj [(js ''choices'',
                 JArr [JObj [(js ''delta'', JObj [(js ''content'', JStr (js ''jour''))])]])]))
       = Some (js ''jour'')
   \<and> JSON_parse id (trim (drop 5 (trim []))) = None
   \<and> (\<exists>c'. shown (fst (snd (stream_phase id [] streaming_page
         [Chunk (js ''data: {"choices":[{"delta":{"content":"jour"}}]}'' @ [10]),
          Failed network_error])))
       = Some ([\<lparr>role = User, content = js ''hi''\<rparr>]
           @ [\<lparr>role = Assistant, content = js ''Bon'' @ c'\<rparr>]))
   \<and> startsWith (js ''data: {"choices":[{"delta":{"content":{"toString":""}}}]}'')
         (js ''data:'')
   \<and> JSON_parse id
         (trim (drop 5 (js ''data: {"choices":[{"delta":{"content":{"toString":""}}}]}'')))
       = Some (JObj [(js ''choices'',
                 JArr [JObj [(js ''delta'',
                   JObj [(js ''content'', JObj [(js ''toString'', JStr [])])])]])])
   \<and> to_string (JObj [(js ''toString'', JStr [])]) = None
   \<and> handle_line id (js ''data: {"choices":[{"delta":{"content":{"toString":""}}}]}'')
         (shown streaming_page) = None
   \<and> snd (snd (read_loop id [] (shown streaming_page)
         [Chunk (js ''data: {"choices":[{"delta":{"content":{"toString":""}}}]}'' @ [10]),
          Done])) = None
   \<and> shown (fst (snd (stream_phase id [] streaming_page
         [Chunk (js ''data: {"choices":[{"delta":{"content":{"toString":""}}}]}'' @ [10]),
          Done]))) = None\<close>
proof -
  let ?good = \<open>js ''data: {"choices":[{"delta":{"content":"jour"}}]}''\<close>
  let ?bad = \<open>js ''data: {"choices":[{"delta":{"content":{"toString":""}}}]}''\<close>
  let ?obj = "JObj [(js ''choices'',
                 JArr [JObj [(js ''delta'',
                   JObj [(js ''content'', JObj [(js ''toString'', JStr [])])])]])]"
  let ?hi = "[\<lparr>role = User, content = js ''hi''\<rparr>]"
  have h: "shown streaming_page = Some (?hi @ [\<lparr>role = Assistant, content = js ''Bon''\<rparr>])"
    by (simp add: streaming_page_def shown_def)
  have hs: "shown (fst (stop streaming_page))
      = Some (?hi @ [\<lparr>role = Assistant, content = js ''Bon''\<rparr>])"
    by (simp add: streaming_page_def shown_def stop_def)
  note t = rendered_text_kept [OF h, where num = id and buffer = "[]"]
  have n: "10 \<notin> set ?good" "10 \<notin> set ?bad" by (simp_all add: js_def)
  have g: "handle_line id (trim ?good) (Some (?hi @ [\<lparr>role = Assistant, content = js ''Bon''\<rparr>]))
      = Some (?hi @ [\<lparr>role = Assistant, content = js ''Bonjour''\<rparr>])"
    by (simp add: parse_eval setMessages_def append_delta_def last_msg_def set_last_def)
  have "drain id (?good @ 10 # []) (Some (?hi @ [\<lparr>role = Assistant, content = js ''Bon''\<rparr>]))
      = drain id [] (handle_line id (trim ?good)
          (Some (?hi @ [\<lparr>role = Assistant, content = js ''Bon''\<rparr>])))"
    using n(1) by (rule drain_line)
  also have "\<dots> = ([], Some (?hi @ [\<lparr>role = Assistant, content = js ''Bonjour''\<rparr>]))"
    by (simp only: g drain_no_newline [of "[]", simplified])
  finally have dg: "drain id (?good @ [10])
      (Some (?hi @ [\<lparr>role = Assistant, content = js ''Bon''\<rparr>]))
      = ([], Some (?hi @ [\<lparr>role = Assistant, content = js ''Bonjour''\<rparr>]))" .
  have st: "startsWith ?bad (js ''data:'')" by (simp add: parse_eval)
  have pb: "JSON_parse id (trim (drop 5 ?bad)) = Some ?obj" by (simp add: parse_eval)
  have tb: "to_string (JObj [(js ''toString'', JStr [])]) = None" by (simp add: js_def)
  have db: "delta_of ?obj = JObj [(js ''toString'', JStr [])]" by (simp add: parse_eval)
  have nb: "trim (drop 5 ?bad) \<noteq> []" "trim (drop 5 ?bad) \<noteq> js ''[DONE]''"
    by (simp_all add: parse_eval)
  have hb: "handle_line id ?bad (shown streaming_page) = None"
    using t [where line = ?bad] st pb tb db nb by auto
  have tr: "trim ?bad = ?bad" by (simp add: parse_eval)
  have "drain id (?bad @ 10 # []) (shown streaming_page)
      = drain id [] (handle_line id (trim ?bad) (shown streaming_page))"
    using n(2) by (rule drain_line)
  also have "\<dots> = ([], None)"
    by (simp only: tr hb drain_no_newline [of "[]", simplified])
  finally have db': "drain id (?bad @ [10]) (shown streaming_page) = ([], None)" .
  have lb: "read_loop id [] (shown streaming_page) [Chunk (?bad @ [10]), Done]
      = (Broke, [], None)"
    by (simp add: db')
  have e1: "shown (fst (snd (stream_phase id [] streaming_page [Done]))) = shown streaming_page"
    using t by blast
  have e2: "shown (fst (snd (stream_phase id [] streaming_page [Failed abort_error])))
       = shown streaming_page"
    using t [where err = abort_error] abort_error_is_abort by blast
  have e3: "shown (fst (snd (stream_phase id [] streaming_page [Failed network_error])))
       = Some (?hi @ [\<lparr>role = Assistant,
               content = js ''Bon'' @ [10, 10] @ warning @ error_text network_error\<rparr>])"
    using t [where err = network_error] network_error_not_abort by blast
  have e4: "shown (fst (snd (stream_phase id [] streaming_page
         [Chunk (?good @ [10]), Failed network_error])))
       = Some [\<lparr>role = User, content = js ''hi''\<rparr>,
          \<lparr>role = Assistant,
           content = js ''Bonjour'' @ [10, 10] @ warning @ js ''network error''\<rparr>]"
    using h dg by (simp add: stream_phase_shown network_error_not_abort show_error_def
        last_msg_def set_last_def error_text_network_error)
  have e5: "shown (fst (snd (stream_phase id [] (fst (stop streaming_page))
         [Chunk (?good @ [10]), Failed abort_error])))
       = Some [\<lparr>role = User, content = js ''hi''\<rparr>, \<lparr>role = Assistant, content = js ''Bonjour''\<rparr>]"
    using hs dg by (simp add: stream_phase_shown abort_error_is_abort)
  have e6: "shown (fst (snd (stream_phase id [] streaming_page [Chunk (?bad @ [10]), Done])))
      = None"
    using t [where reads = "[Chunk (?bad @ [10]), Done]"] lb by simp
  have e0: "shown (fst (stop streaming_page)) = shown streaming_page" using t by blast
  let ?og = "JObj [(js ''choices'',
                 JArr [JObj [(js ''delta'', JObj [(js ''content'', JStr (js ''jour''))])]])]"
  have sl: "split_lines ([] @ received [Chunk (?good @ [10]), Failed network_error])
      = [?good, []]"
    using split_lines_line [OF n(1), of "[]"] by simp
  have pg: "JSON_parse id (trim (drop 5 (trim ?good))) = Some ?og" by (simp add: parse_eval)
  have tg: "to_string (delta_of ?og) = Some (js ''jour'')" by (simp add: parse_eval)
  have pe: "JSON_parse id (trim (drop 5 (trim []))) = None" by (simp add: parse_eval)
  have all: "\<forall>l\<in>set (split_lines ([] @ received [Chunk (?good @ [10]), Failed network_error])).
      \<forall>obj. JSON_parse id (trim (drop 5 (trim l))) = Some obj \<longrightarrow>
        to_string (delta_of obj) \<noteq> None"
    unfolding sl using pg tg pe by auto
  have e7: "\<exists>c'. shown (fst (snd (stream_phase id [] streaming_page
         [Chunk (?good @ [10]), Failed network_error])))
       = Some (?hi @ [\<lparr>role = Assistant, content = js ''Bon'' @ c'\<rparr>])"
    using t [where reads = "[Chunk (?good @ [10]), Failed network_error]"] all by blast
  have part1: "shown streaming_page
       = Some (?hi @ [\<lparr>role = Assistant, content = js ''Bon''\<rparr>])
     \<and> shown (fst (stop streaming_page)) = shown streaming_page
     \<and> shown (fst (snd (stream_phase id [] streaming_page [Done]))) = shown streaming_page
     \<and> is_abort abort_error
     \<and> shown (fst (snd (stream_phase id [] streaming_page [Failed abort_error])))
         = shown streaming_page
     \<and> \<not> is_abort network_error
     \<and> shown (fst (snd (stream_phase id [] streaming_page [Failed network_error])))
         = Some (?hi @ [\<lparr>role = Assistant,
               content = js ''Bon'' @ [10, 10] @ warning @ error_text network_error\<rparr>])"
    using h e0 e1 abort_error_is_abort e2 network_error_not_abort e3 by blast
  from part1 e4 e5 sl pg tg pe e7 st pb tb hb lb e6
  show ?thesis by (simp only: snd_conv simp_thms)
qed



subsection \<open>Requests in flight\<close>

lemma stream_phase_effects:
  "snd (snd (stream_phase num buf s reads)) = []
   \<or> (\<exists>r. snd (snd (stream_phase num buf s reads)) = [ReaderCancelled r])"
  by (auto simp: stream_phase_def finally_block_def
      split: prod.splits loop_exit.splits option.splits)

lemma stream_phase_quiet:
  "Fetched r \<notin> set (snd (snd (stream_phase num buf s reads)))"
  "Aborted c \<notin> set (snd (snd (stream_phase num buf s reads)))"
  using stream_phase_effects [of num buf s reads] by auto

lemma stream_phase_exit:
  "fst (stream_phase num buf s reads) \<noteq> NotSent"
  "fst (stream_phase num buf s reads) \<noteq> FailureShown"
  "fst (stream_phase num buf s reads) = Awaiting b' \<Longrightarrow>
     pending (fst (snd (stream_phase num buf s reads))) = pending s
     \<and> abortRef (fst (snd (stream_phase num buf s reads))) = abortRef s
     \<and> readerRef (fst (snd (stream_phase num buf s reads))) = readerRef s"
  "fst (stream_phase num buf s reads) = Finished \<Longrightarrow>
     \<not> pending (fst (snd (stream_phase num buf s reads)))"
  by (auto simp: stream_phase_def finally_block_def
      split: prod.splits loop_exit.splits option.splits)

lemma in_flight_page_pending:
  "pending in_flight_page" "abortRef in_flight_page = Some 1"
  by (simp_all add: in_flight_page_def streaming_page_def)

lemma failed_page_idle:
  "trim (input failed_page) \<noteq> [] \<and> \<not> pending failed_page"
  "abortRef failed_page = Some 1" "controller (next_browser [Done]) = 3"
  by (simp_all add: failed_page_def next_browser_def trim_def is_ws_def js_def)

lemma send_awaits:
  "fst (send (streaming_browser [Chunk (js ''data: '')]) initial_page) = Awaiting (js ''data: '')"
  by (simp add: send_def Let_def initial_page_def streaming_browser_def stream_phase_def
      drain_no_newline trim_def is_ws_def js_def)

lemma send_finishes:
  "fst (send (streaming_browser [Done]) initial_page) = Finished"
  by (simp add: send_def Let_def initial_page_def streaming_browser_def stream_phase_def
      finally_block_def trim_def is_ws_def js_def)

text \<open>
  Claim C8, as the code has it. A call of \<open>send\<close> while the flag \<open>pending\<close> is set
  returns at the guard of line 22: it makes no request and aborts nothing. A call that
  goes on makes exactly one request, after it has aborted the controller that
  \<open>abortRef\<close> still holds, if any, and the request carries the signal of the new
  controller. While that call is suspended in a read the flag is set and the refs hold
  its controller and its reader, so no other call of \<open>send\<close> goes on; the flag is
  cleared when the call has finished or has shown a failure, and by \<open>stop\<close>, which
  aborts the controller it finds.
\<close>

theorem single_request_in_flight:
  "(pending st \<longrightarrow> send b st = (NotSent, st, []))
   \<and> (trim (input st) \<noteq> [] \<and> \<not> pending st \<longrightarrow>
        (\<exists>req fx. snd (snd (send b st))
            = (case abortRef st of None \<Rightarrow> [] | Some old \<Rightarrow> [Aborted old]) @ Fetched req # fx
          \<and> signal req = controller b
          \<and> (\<forall>r. Fetched r \<notin> set fx) \<and> (\<forall>c. Aborted c \<notin> set fx)))
   \<and> (\<forall>buf. fst (send b st) = Awaiting buf \<longrightarrow>
        pending (fst (snd (send b st)))
        \<and> abortRef (fst (snd (send b st))) = Some (controller b)
        \<and> readerRef (fst (snd (send b st))) = Some (reader b))
   \<and> (fst (send b st) = Finished \<or> fst (send b st) = FailureShown \<longrightarrow>
        \<not> pending (fst (snd (send b st))))
   \<and> (\<forall>c. abortRef st = Some c \<longrightarrow>
        Aborted c \<in> set (snd (stop st)) \<and> \<not> pending (fst (stop st))
        \<and> abortRef (fst (stop st)) = None)"
proof -
  let ?next = "messages st @
    [\<lparr>role = User, content = input st\<rparr>, \<lparr>role = Assistant, content = []\<rparr>]"
  let ?req = "\<lparr>fetch_messages =
      filter (\<lambda>m. \<not> (role m = Assistant \<and> trim (content m) = [])) ?next,
      fetch_model = model st, signal = controller b\<rparr>"
  let ?ab = "case abortRef st of None \<Rightarrow> [] | Some old \<Rightarrow> [Aborted old]"
  let ?st1 = "st\<lparr>messages := ?next, input := [], pending := True,
      abortRef := Some (controller b)\<rparr>"
  have guard: "send b st = (NotSent, st, [])" if "pending st"
    using that by (simp add: send_def)
  have run: "send b st =
      (case fetch b ?req of
         FetchRejects err \<Rightarrow> (Rejected err, ?st1, ?ab @ [Fetched ?req])
       | FetchResolves res \<Rightarrow>
           (case (if ok res then res_body res else None) of
              None \<Rightarrow>
                (FailureShown,
                 ?st1\<lparr>pending := False, messages := show_failure (res_text res) ?next\<rparr>,
                 ?ab @ [Fetched ?req])
            | Some reads \<Rightarrow>
                (case stream_phase (number_text b) [] (?st1\<lparr>readerRef := Some (reader b)\<rparr>)
                        reads of
                   (exit, st', fx) \<Rightarrow> (exit, st', ?ab @ [Fetched ?req] @ fx))))"
    if "trim (input st) \<noteq> []" "\<not> pending st"
    using that unfolding send_def Let_def by (simp only: if_False simp_thms)
  have fetch: "\<exists>req fx. snd (snd (send b st)) = ?ab @ Fetched req # fx
          \<and> signal req = controller b
          \<and> (\<forall>r. Fetched r \<notin> set fx) \<and> (\<forall>c. Aborted c \<notin> set fx)"
    if h: "trim (input st) \<noteq> []" "\<not> pending st"
  proof (cases "fetch b ?req")
    case (FetchRejects err)
    then have "snd (snd (send b st)) = ?ab @ Fetched ?req # []"
      by (simp add: run [OF h])
    then show ?thesis by (intro exI [of _ ?req] exI [of _ "[]"]) simp
  next
    case (FetchResolves res)
    show ?thesis
    proof (cases "if ok res then res_body res else None")
      case None
      with FetchResolves have "snd (snd (send b st)) = ?ab @ Fetched ?req # []"
        by (simp add: run [OF h])
      then show ?thesis by (intro exI [of _ ?req] exI [of _ "[]"]) simp
    next
      case (Some reads)
      let ?p = "stream_phase (number_text b) [] (?st1\<lparr>readerRef := Some (reader b)\<rparr>) reads"
      from FetchResolves Some have "snd (snd (send b st)) = ?ab @ Fetched ?req # snd (snd ?p)"
        by (simp add: run [OF h] split: prod.splits)
      then show ?thesis
        using stream_phase_quiet [of _ "number_text b" "[]" "?st1\<lparr>readerRef := Some (reader b)\<rparr>" reads]
        by (intro exI [of _ ?req] exI [of _ "snd (snd ?p)"]) simp
    qed
  qed
  have exits: "(fst (send b st) = Awaiting buf \<longrightarrow>
        pending (fst (snd (send b st)))
        \<and> abortRef (fst (snd (send b st))) = Some (controller b)
        \<and> readerRef (fst (snd (send b st))) = Some (reader b))
      \<and> (fst (send b st) = Finished \<or> fst (send b st) = FailureShown \<longrightarrow>
        \<not> pending (fst (snd (send b st))))" for buf
  proof (cases "trim (input st) = [] \<or> pending st")
    case True
    then have "send b st = (NotSent, st, [])" by (auto simp: send_def)
    then show ?thesis by simp
  next
    case False
    then have h: "trim (input st) \<noteq> []" "\<not> pending st" by simp_all
    show ?thesis
    proof (cases "fetch b ?req")
      case (FetchRejects err)
      then show ?thesis by (simp add: run [OF h])
    next
      case (FetchResolves res)
      show ?thesis
      proof (cases "if ok res then res_body res else None")
        case None
        with FetchResolves show ?thesis by (simp add: run [OF h])
      next
        case (Some reads)
        let ?p = "stream_phase (number_text b) [] (?st1\<lparr>readerRef := Some (reader b)\<rparr>) reads"
        from FetchResolves Some have s: "fst (send b st) = fst ?p"
          "fst (snd (send b st)) = fst (snd ?p)"
          by (simp_all add: run [OF h] split: prod.splits)
        show ?thesis
          unfolding s
          using stream_phase_exit [of "number_text b" "[]" "?st1\<lparr>readerRef := Some (reader b)\<rparr>" reads]
          by auto
      qed
    qed
  qed
  have halt: "Aborted c \<in> set (snd (stop st)) \<and> \<not> pending (fst (stop st))
        \<and> abortRef (fst (stop st)) = None" if "abortRef st = Some c" for c
    using that by (simp add: stop_def)
  from guard fetch exits halt show ?thesis by blast
qed

theorem single_request_in_flight_witness:
  "pending in_flight_page
   \<and> send (next_browser [Done]) in_flight_page = (NotSent, in_flight_page, [])
   \<and> trim (input failed_page) \<noteq> [] \<and> \<not> pending failed_page
   \<and> abortRef failed_page = Some 1
   \<and> (\<exists>req fx. snd (snd (send (next_browser [Done]) failed_page))
          = Aborted 1 # Fetched req # fx \<and> signal req = 3)
   \<and> fst (send (streaming_browser [Chunk (js ''data: '')]) initial_page)
       = Awaiting (js ''data: '')
   \<and> pending (fst (snd (send (streaming_browser [Chunk (js ''data: '')]) initial_page)))
   \<and> abortRef (fst (snd (send (streaming_browser [Chunk (js ''data: '')]) initial_page)))
       = Some (controller (streaming_browser [Chunk (js ''data: '')]))
   \<and> fst (send (streaming_browser [Done]) initial_page) = Finished
   \<and> \<not> pending (fst (snd (send (streaming_browser [Done]) initial_page)))
   \<and> abortRef streaming_page = Some 1
   \<and> Aborted 1 \<in> set (snd (stop streaming_page))"
proof -
  note t1 = single_request_in_flight [of in_flight_page "next_browser [Done]"]
  note t2 = single_request_in_flight [of failed_page "next_browser [Done]"]
  note t3 = single_request_in_flight
    [of initial_page "streaming_browser [Chunk (js ''data: '')]"]
  note t4 = single_request_in_flight [of initial_page "streaming_browser [Done]"]
  note t5 = single_request_in_flight [of streaming_page "next_browser [Done]"]
  have a: "abortRef streaming_page = Some 1" by (simp add: streaming_page_def)
  from t1 in_flight_page_pending(1)
  have c1: "send (next_browser [Done]) in_flight_page = (NotSent, in_flight_page, [])"
    by blast
  from t2 failed_page_idle(1)
  have "\<exists>req fx. snd (snd (send (next_browser [Done]) failed_page))
            = (case abortRef failed_page of None \<Rightarrow> [] | Some old \<Rightarrow> [Aborted old])
              @ Fetched req # fx
          \<and> signal req = controller (next_browser [Done])"
    by blast
  then have c2: "\<exists>req fx. snd (snd (send (next_browser [Done]) failed_page))
          = Aborted 1 # Fetched req # fx \<and> signal req = 3"
    by (simp add: failed_page_idle)
  from t3 send_awaits
  have c3: "pending (fst (snd (send (streaming_browser [Chunk (js ''data: '')]) initial_page)))
      \<and> abortRef (fst (snd (send (streaming_browser [Chunk (js ''data: '')]) initial_page)))
       = Some (controller (streaming_browser [Chunk (js ''data: '')]))"
    by blast
  from t4 send_finishes
  have c4: "\<not> pending (fst (snd (send (streaming_browser [Done]) initial_page)))"
    by blast
  from t5 a have c5: "Aborted 1 \<in> set (snd (stop streaming_page))"
    by blast
  from in_flight_page_pending(1) c1 failed_page_idle(1,2) c2 send_awaits c3 send_finishes c4 a c5
  show ?thesis by blast
qed

text \<open>
  The claim as it was stated fails while a response streams: a call of \<open>send\<close> with a
  new question typed returns at the guard, the controller of the request in flight is
  not aborted, and the request stays in flight.
\<close>

theorem send_while_streaming_counterexample:
  "pending in_flight_page \<and> abortRef in_flight_page = Some 1
   \<and> trim (input in_flight_page) = js ''again''
   \<and> send (next_browser [Done]) in_flight_page = (NotSent, in_flight_page, [])
   \<and> Aborted 1 \<notin> set (snd (snd (send (next_browser [Done]) in_flight_page)))
   \<and> pending (fst (snd (send (next_browser [Done]) in_flight_page)))
   \<and> abortRef (fst (snd (send (next_browser [Done]) in_flight_page))) = Some 1"
  by (simp add: in_flight_page_def streaming_page_def send_def trim_def is_ws_def js_def)

section \<open>Properties of the forwarder\<close>

subsection \<open>The two loops\<close>

declare attempt_loop.simps [simp del]

declare digits.simps [simp del]

declare model_loop.simps(2) [simp del]

lemma attempt_loop_0:
  "attempt_loop w sc m 0 s =
     (if \<not> capacity (axios_post w (calls s) (request_for sc m)) then
        (construct (attempt_result w sc m (axios_post w (calls s) (request_for sc m))),
         s\<lparr>calls := calls s + 1, trace := trace s @ [Posted (request_for sc m)]\<rparr>)
      else if \<not> capacity (axios_post w (calls s + 1) (request_for sc m)) then
        (construct (attempt_result w sc m (axios_post w (calls s + 1) (request_for sc m))),
         s\<lparr>calls := calls s + 2, randoms := randoms s + 1,
           trace := trace s @ [Posted (request_for sc m),
             Slept (200 + nat \<lfloor>Math_random w (randoms s) * 200\<rfloor>),
             Posted (request_for sc m)]\<rparr>)
      else
        (Next,
         s\<lparr>calls := calls s + 2, randoms := randoms s + 1,
           trace := trace s @ [Posted (request_for sc m),
             Slept (200 + nat \<lfloor>Math_random w (randoms s) * 200\<rfloor>),
             Posted (request_for sc m)]\<rparr>))"
proof -
  have two: "attempt_loop w sc m (Suc (Suc 0)) t = (Next, t)" for t
    by (subst attempt_loop.simps) simp
  have one: "attempt_loop w sc m (Suc 0) t =
      (let t1 = t\<lparr>randoms := randoms t + 1,
                   trace := trace t @ [Slept (200 + nat \<lfloor>Math_random w (randoms t) * 200\<rfloor>)]\<rparr>;
           t2 = t1\<lparr>calls := calls t + 1, trace := trace t1 @ [Posted (request_for sc m)]\<rparr>
       in if \<not> capacity (axios_post w (calls t) (request_for sc m)) then
            (construct (attempt_result w sc m (axios_post w (calls t) (request_for sc m))), t2)
          else (Next, t2))" for t
    by (subst attempt_loop.simps)
       (simp add: two sleep_before_def capacity_def attempt_result_def construct_def Let_def
          split: axios_result.splits option.splits)
  show ?thesis
    by (subst attempt_loop.simps)
       (simp add: one sleep_before_def capacity_def attempt_result_def construct_def Let_def
          split: axios_result.splits option.splits)
qed

lemma upt_6: "[0..<6] = [0, 1, 2, 3, 4, 5]"
  by code_simp

lemma construct_settle:
  "(case construct (attempt_result w sc m r) of
      Returned x \<Rightarrow> (x, t) | Thrown e \<Rightarrow> (caught sc e, t) | Next \<Rightarrow> z)
   = (settle w sc m r, t)"
  by (simp add: construct_def settle_def split: sum.splits)

lemma model_loop_step:
  "model_loop w sc (m # ms) s =
     (if \<not> capacity (axios_post w (calls s) (request_for sc m)) then
        (construct (attempt_result w sc m (axios_post w (calls s) (request_for sc m))),
         s\<lparr>calls := calls s + 1, trace := trace s @ [Posted (request_for sc m)]\<rparr>)
      else if \<not> capacity (axios_post w (calls s + 1) (request_for sc m)) then
        (construct (attempt_result w sc m (axios_post w (calls s + 1) (request_for sc m))),
         s\<lparr>calls := calls s + 2, randoms := randoms s + 1,
           trace := trace s @ [Posted (request_for sc m),
             Slept (200 + nat \<lfloor>Math_random w (randoms s) * 200\<rfloor>),
             Posted (request_for sc m)]\<rparr>)
      else
        model_loop w sc ms
          (s\<lparr>calls := calls s + 2, randoms := randoms s + 1,
             trace := trace s @ [Posted (request_for sc m),
               Slept (200 + nat \<lfloor>Math_random w (randoms s) * 200\<rfloor>),
               Posted (request_for sc m)]\<rparr>))"
  by (simp add: model_loop.simps attempt_loop_0 construct_def split: sum.splits)

lemma capacity_response:
  "new_Response w (Text t) [] 429 = Inr (make_response (Text t) [] 429)"
  by (simp add: new_Response_def null_body_status_def)

lemma try_block_run:
  "try_block w sc pm =
     (let cands = modelCandidates pm; k = leading w sc cands; n = min 6 (Suc k)
      in ((if k = 6 then make_response (Text (capacity_body sc cands)) [] 429
           else settle w sc (cands ! (k div 2)) (outcome w sc cands k)),
          take (n + n div 2) (schedule w sc cands)))"
proof -
  let ?c = "\<lambda>i. capacity (outcome w sc (modelCandidates pm) i)"
  note defs = try_block_def modelCandidates_def model_loop_step leading_def upt_6 outcome_def
    schedule_def Let_def construct_settle capacity_response numeral_2_eq_2 [symmetric]
  consider (0) "\<not> ?c 0" | (1) "?c 0" "\<not> ?c 1" | (2) "?c 0" "?c 1" "\<not> ?c 2"
    | (3) "?c 0" "?c 1" "?c 2" "\<not> ?c 3" | (4) "?c 0" "?c 1" "?c 2" "?c 3" "\<not> ?c 4"
    | (5) "?c 0" "?c 1" "?c 2" "?c 3" "?c 4" "\<not> ?c 5"
    | (6) "?c 0" "?c 1" "?c 2" "?c 3" "?c 4" "?c 5"
    by blast
  then show ?thesis
  proof cases
    case 0
    then show ?thesis by (simp add: defs)
  next
    case 1
    then show ?thesis by (simp add: defs)
  next
    case 2
    then show ?thesis by (simp add: defs)
  next
    case 3
    then show ?thesis by (simp add: defs)
  next
    case 4
    then show ?thesis by (simp add: defs)
  next
    case 5
    then show ?thesis by (simp add: defs)
  next
    case 6
    then show ?thesis by (simp add: defs)
  qed
qed

lemma POST_parsed:
  "MISTRAL_API_KEY e = Some k \<Longrightarrow> k \<noteq> [] \<Longrightarrow>
   POST w e (Parsed p) = try_block w (scope_of e k p) (preferModel p)"
  by (simp add: POST_def)

lemma leading_eq:
  assumes "i < 6" and "\<forall>j<i. capacity (outcome w sc cands j)"
    and "\<not> capacity (outcome w sc cands i)"
  shows "leading w sc cands = i"
proof -
  let ?xs = "map (outcome w sc cands) [0..<6]"
  have "takeWhile capacity ?xs = take i ?xs"
  proof (rule takeWhile_eq_take_P_nth)
    fix j assume "j < i" and "j < length ?xs"
    with assms(2) show "capacity (?xs ! j)" by simp
  next
    assume "i < length ?xs"
    with assms(3) show "\<not> capacity (?xs ! i)" by simp
  qed
  with assms(1) show ?thesis by (simp add: leading_def)
qed

lemma leading_all:
  assumes "\<forall>j<6. capacity (outcome w sc cands j)"
  shows "leading w sc cands = 6"
proof -
  have eq: "takeWhile capacity (map (outcome w sc cands) [0..<6])
      = map (outcome w sc cands) [0..<6]"
    by (rule takeWhile_eq_all_conv [THEN iffD2]) (use assms in auto)
  show ?thesis unfolding leading_def eq by simp
qed

lemma join_snoc: "join sep (xs @ [y]) = (if xs = [] then y else join sep xs @ sep @ y)"
  by (induction sep xs rule: join.induct) auto

lemma capacity_body_tried:
  "\<exists>pre. capacity_body sc [a, b, c]
     = pre @ quote a @ [44] @ quote b @ [44] @ quote c @ [93, 125]"
  by (cases "caPathUsed sc") (simp_all add: capacity_body_def object_def)

lemma capacity_body_names:
  assumes "m \<in> set [a, b, c]"
  shows "sublist (quote m) (capacity_body sc [a, b, c])"
proof -
  obtain pre where p: "capacity_body sc [a, b, c]
     = pre @ quote a @ [44] @ quote b @ [44] @ quote c @ [93, 125]"
    using capacity_body_tried by blast
  from assms consider "m = a" | "m = b" | "m = c" by auto
  then show ?thesis
  proof cases
    case 1
    then show ?thesis unfolding sublist_def p by blast
  next
    case 2
    have "capacity_body sc [a, b, c] = (pre @ quote a @ [44]) @ quote b @ ([44] @ quote c @ [93, 125])"
      by (simp add: p)
    with 2 show ?thesis unfolding sublist_def by blast
  next
    case 3
    have "capacity_body sc [a, b, c] = (pre @ quote a @ [44] @ quote b @ [44]) @ quote c @ [93, 125]"
      by (simp add: p)
    with 3 show ?thesis unfolding sublist_def by blast
  qed
qed

lemma schedule_sleeps:
  assumes "\<forall>i. 0 \<le> Math_random w i \<and> Math_random w i < 1"
    and "Slept d \<in> set (schedule w sc cands)"
  shows "200 \<le> d \<and> d < 400"
proof -
  from assms(2) obtain i where d: "d = 200 + nat \<lfloor>Math_random w i * 200\<rfloor>"
    by (auto simp: schedule_def)
  from assms(1) have "Math_random w i * 200 < 200" by simp
  then have "\<lfloor>Math_random w i * 200\<rfloor> < 200" by (simp add: floor_less_iff)
  then have "nat \<lfloor>Math_random w i * 200\<rfloor> < 200" by linarith
  with d show ?thesis by simp
qed

lemma POST_at:
  assumes "MISTRAL_API_KEY e = Some k" and "k \<noteq> []"
    and "sc = scope_of e k p" and "cands = modelCandidates (preferModel p)"
    and "i < 6"
    and "\<forall>j<i. capacity (axios_post w j (request_for sc (cands ! (j div 2))))"
    and "\<not> capacity (axios_post w i (request_for sc (cands ! (i div 2))))"
  shows "POST w e (Parsed p)
     = (settle w sc (cands ! (i div 2)) (axios_post w i (request_for sc (cands ! (i div 2)))),
        take (Suc i + Suc i div 2) (schedule w sc cands))"
proof -
  have "leading w sc cands = i"
    using assms(5-7) by (intro leading_eq) (simp_all add: outcome_def)
  moreover have "min 6 (Suc i) = Suc i" using assms(5) by simp
  ultimately show ?thesis
    using assms(1-5) by (simp add: POST_parsed try_block_run Let_def outcome_def)
qed

lemma POST_exhausted:
  assumes "MISTRAL_API_KEY e = Some k" and "k \<noteq> []"
    and "sc = scope_of e k p" and "cands = modelCandidates (preferModel p)"
    and "\<forall>j<6. capacity (axios_post w j (request_for sc (cands ! (j div 2))))"
  shows "POST w e (Parsed p)
     = (make_response (Text (capacity_body sc cands)) [] 429, schedule w sc cands)"
proof -
  have "leading w sc cands = 6"
    using assms(5) by (intro leading_all) (simp add: outcome_def)
  with assms(1-4) show ?thesis
    by (simp add: POST_parsed try_block_run Let_def schedule_def)
qed

lemma schedule_list:
  "schedule w sc cands =
     [Posted (request_for sc (cands ! 0)), Slept (200 + nat \<lfloor>Math_random w 0 * 200\<rfloor>),
      Posted (request_for sc (cands ! 0)),
      Posted (request_for sc (cands ! 1)), Slept (200 + nat \<lfloor>Math_random w 1 * 200\<rfloor>),
      Posted (request_for sc (cands ! 1)),
      Posted (request_for sc (cands ! 2)), Slept (200 + nat \<lfloor>Math_random w 2 * 200\<rfloor>),
      Posted (request_for sc (cands ! 2))]"
  by (simp add: schedule_def)

subsection \<open>The sample runs\<close>

lemma scripted_nth: "n < length rs \<Longrightarrow> axios_post (scripted rs) n r = rs ! n"
  by (simp add: scripted_def script_def)

lemma capacity_samples: "capacity busy" "capacity saturated" "\<not> capacity streamed"
  "\<not> capacity bad_request"
  by (simp_all add: capacity_def busy_def saturated_def streamed_def bad_request_def
      success_stream_def is429_def errText_def js_def upper_def)

lemma test_key: "MISTRAL_API_KEY test_env = Some (js ''test-key'')" "js ''test-key'' \<noteq> []"
  by (simp_all add: test_env_def js_def)

lemma test_candidates_list:
  "test_candidates
     = [js ''mistral-large-latest'', js ''mistral-medium-latest'', js ''mistral-small-latest'']"
  by (simp add: test_candidates_def modelCandidates_def preferModel_def hello_def)

lemma random_half:
  "\<forall>n. 0 \<le> Math_random exhausted_world n \<and> Math_random exhausted_world n < 1"
  by (simp add: exhausted_world_def scripted_def)

lemma test_scope_ca: "header_safe (caPathUsed test_scope)"
  by (simp add: header_safe_def test_scope_def scope_of_def test_env_def caCandidates_def)

lemma failing_world_posts:
  "Posted (request_for test_scope (js ''mistral-large-latest''))
     \<in> set (snd (POST failing_world test_env (Parsed hello)))"
proof -
  let ?rq = "\<lambda>j. request_for test_scope (test_candidates ! (j div 2))"
  have c: "\<forall>j<2. capacity (axios_post failing_world j (?rq j))"
  proof (intro allI impI)
    fix j :: nat assume "j < 2"
    then consider "j = 0" | "j = 1" by linarith
    then show "capacity (axios_post failing_world j (?rq j))"
      by cases (simp_all add: failing_world_def scripted_nth capacity_samples)
  qed
  have n: "\<not> capacity (axios_post failing_world 2 (?rq 2))"
    by (simp add: failing_world_def scripted_nth bad_request_def capacity_def
        success_stream_def is429_def errText_def js_def upper_def)
  have i: "(2::nat) < 6" by simp
  from POST_at [OF test_key test_scope_def test_candidates_def i c n]
  show ?thesis
    by (simp add: schedule_def test_candidates_list)
qed

lemma stopped_page_fetches:
  "Fetched retry_request \<in> set (snd (snd (send (streaming_browser [Done]) stopped_page)))"
  by (simp add: send_def Let_def stopped_page_def retry_request_def streaming_browser_def
      stream_phase_def finally_block_def trim_def is_ws_def js_def)

lemmas post_eval =
  POST_def scripted_def script_def test_env_def busy_def saturated_def streamed_def
  bad_request_def hello_def try_block_def scope_of_def preferModel_def modelCandidates_def
  model_loop.simps attempt_loop.simps sleep_before_def request_for_def success_stream_def
  is429_def errText_def construct_def new_Response_def make_response_def success_headers_def
  header_def filter_messages_def is_placeholder_def caCandidates_def js_def
  valid_header_value_def normalize_value_def http_ws_def null_body_status_def upper_def
  capacity_def trim_def upstream_error_body_def capacity_body_def object_def quote_def
  escape_unit_def is_lead_def is_trail_def digits.simps caught_def

subsection \<open>Fallback on capacity signals\<close>

text \<open>
  Claim C1. With a credential configured and a request body that parses, the candidates
  are the preferred model, then \<open>mistral-medium-latest\<close>, then \<open>mistral-small-latest\<close>,
  and what the handler does is a prefix of the schedule: for each candidate in this order
  a call, one sleep, and one more call of the same model. Each sleep lasts at least 200
  and less than 400 milliseconds when the random numbers lie in the unit interval. When call
  \<open>i\<close> is the first whose outcome is not a capacity signal, the handler has made the
  calls 0 to \<open>i\<close> with the sleep before every second attempt among them and nothing
  after; so a model that signals capacity is tried exactly once more, after the sleep,
  before the next candidate. When all six calls signal capacity the whole schedule ran,
  the response is the one of line 146 with status 429, and its body contains the name of
  every candidate as a JSON string.
\<close>

theorem capacity_fallback:
  assumes "MISTRAL_API_KEY e = Some k" and "k \<noteq> []"
    and "sc = scope_of e k p" and "cands = modelCandidates (preferModel p)"
  shows
    "cands = [preferModel p, js ''mistral-medium-latest'', js ''mistral-small-latest'']
     \<and> schedule w sc cands =
         [Posted (request_for sc (cands ! 0)), Slept (200 + nat \<lfloor>Math_random w 0 * 200\<rfloor>),
          Posted (request_for sc (cands ! 0)),
          Posted (request_for sc (cands ! 1)), Slept (200 + nat \<lfloor>Math_random w 1 * 200\<rfloor>),
          Posted (request_for sc (cands ! 1)),
          Posted (request_for sc (cands ! 2)), Slept (200 + nat \<lfloor>Math_random w 2 * 200\<rfloor>),
          Posted (request_for sc (cands ! 2))]
     \<and> ((\<forall>n. 0 \<le> Math_random w n \<and> Math_random w n < 1) \<longrightarrow>
          (\<forall>d. Slept d \<in> set (schedule w sc cands) \<longrightarrow> 200 \<le> d \<and> d < 400))
     \<and> (\<forall>i<6. (\<forall>j<i. capacity (axios_post w j (request_for sc (cands ! (j div 2)))))
            \<and> \<not> capacity (axios_post w i (request_for sc (cands ! (i div 2)))) \<longrightarrow>
          snd (POST w e (Parsed p)) = take (Suc i + Suc i div 2) (schedule w sc cands))
     \<and> ((\<forall>j<6. capacity (axios_post w j (request_for sc (cands ! (j div 2))))) \<longrightarrow>
          snd (POST w e (Parsed p)) = schedule w sc cands
          \<and> fst (POST w e (Parsed p)) = make_response (Text (capacity_body sc cands)) [] 429
          \<and> status (fst (POST w e (Parsed p))) = 429
          \<and> (\<forall>m\<in>set cands. sublist (quote m) (capacity_body sc cands)))"
proof -
  have c: "cands = [preferModel p, js ''mistral-medium-latest'', js ''mistral-small-latest'']"
    using assms(4) by (simp add: modelCandidates_def)
  have s: "(\<forall>n. 0 \<le> Math_random w n \<and> Math_random w n < 1) \<longrightarrow>
          (\<forall>d. Slept d \<in> set (schedule w sc cands) \<longrightarrow> 200 \<le> d \<and> d < 400)"
    using schedule_sleeps by blast
  have a: "\<forall>i<6. (\<forall>j<i. capacity (axios_post w j (request_for sc (cands ! (j div 2)))))
            \<and> \<not> capacity (axios_post w i (request_for sc (cands ! (i div 2)))) \<longrightarrow>
          snd (POST w e (Parsed p)) = take (Suc i + Suc i div 2) (schedule w sc cands)"
    using POST_at [OF assms] by simp
  have n: "\<forall>m\<in>set cands. sublist (quote m) (capacity_body sc cands)"
    unfolding c using capacity_body_names by blast
  have b: "(\<forall>j<6. capacity (axios_post w j (request_for sc (cands ! (j div 2))))) \<longrightarrow>
          snd (POST w e (Parsed p)) = schedule w sc cands
          \<and> fst (POST w e (Parsed p)) = make_response (Text (capacity_body sc cands)) [] 429
          \<and> status (fst (POST w e (Parsed p))) = 429
          \<and> (\<forall>m\<in>set cands. sublist (quote m) (capacity_body sc cands))"
    using POST_exhausted [OF assms] n by (simp add: make_response_def)
  from c schedule_list s a b show ?thesis by blast
qed

theorem capacity_fallback_witness:
  "MISTRAL_API_KEY test_env = Some (js ''test-key'') \<and> js ''test-key'' \<noteq> []
   \<and> (\<forall>n. 0 \<le> Math_random exhausted_world n \<and> Math_random exhausted_world n < 1)
   \<and> Slept 300 \<in> set (schedule exhausted_world test_scope test_candidates)
   \<and> (200::nat) \<le> 300 \<and> (300::nat) < 400
   \<and> capacity (axios_post exhausted_world 0 (request_for test_scope (test_candidates ! (0 div 2))))
   \<and> capacity (axios_post exhausted_world 1 (request_for test_scope (test_candidates ! (1 div 2))))
   \<and> capacity (axios_post exhausted_world 2 (request_for test_scope (test_candidates ! (2 div 2))))
   \<and> capacity (axios_post exhausted_world 3 (request_for test_scope (test_candidates ! (3 div 2))))
   \<and> capacity (axios_post exhausted_world 4 (request_for test_scope (test_candidates ! (4 div 2))))
   \<and> capacity (axios_post exhausted_world 5 (request_for test_scope (test_candidates ! (5 div 2))))
   \<and> snd (POST exhausted_world test_env (Parsed hello))
       = schedule exhausted_world test_scope test_candidates
   \<and> map body_model (posted (snd (POST exhausted_world test_env (Parsed hello))))
       = [js ''mistral-large-latest'', js ''mistral-large-latest'',
          js ''mistral-medium-latest'', js ''mistral-medium-latest'',
          js ''mistral-small-latest'', js ''mistral-small-latest'']
   \<and> status (fst (POST exhausted_world test_env (Parsed hello))) = 429
   \<and> js ''mistral-small-latest'' \<in> set test_candidates
   \<and> sublist (quote (js ''mistral-small-latest'')) (capacity_body test_scope test_candidates)
   \<and> (2::nat) < 6
   \<and> capacity (axios_post failing_world 0 (request_for test_scope (test_candidates ! (0 div 2))))
   \<and> capacity (axios_post failing_world 1 (request_for test_scope (test_candidates ! (1 div 2))))
   \<and> \<not> capacity (axios_post failing_world 2 (request_for test_scope (test_candidates ! (2 div 2))))
   \<and> snd (POST failing_world test_env (Parsed hello))
       = take (Suc 2 + Suc 2 div 2) (schedule failing_world test_scope test_candidates)"
proof -
  let ?rq = "\<lambda>j. request_for test_scope (test_candidates ! (j div 2))"
  have all: "\<forall>j<6. capacity (axios_post exhausted_world j (?rq j))"
  proof (intro allI impI)
    fix j :: nat assume j: "j < 6"
    have "list_all capacity [busy, saturated, busy, busy, saturated, busy]"
      by (simp add: capacity_samples)
    with j have "capacity ([busy, saturated, busy, busy, saturated, busy] ! j)"
      by (simp add: list_all_length)
    with j show "capacity (axios_post exhausted_world j (?rq j))"
      by (simp add: exhausted_world_def scripted_nth)
  qed
  note t = capacity_fallback [OF test_key test_scope_def test_candidates_def]
  have c: "js ''mistral-small-latest'' \<in> set test_candidates"
    by (simp add: test_candidates_list)
  have s: "Slept 300 \<in> set (schedule exhausted_world test_scope test_candidates)"
    by (simp add: schedule_list exhausted_world_def scripted_def)
  have e: "snd (POST exhausted_world test_env (Parsed hello))
       = schedule exhausted_world test_scope test_candidates
     \<and> status (fst (POST exhausted_world test_env (Parsed hello))) = 429
     \<and> sublist (quote (js ''mistral-small-latest'')) (capacity_body test_scope test_candidates)"
  proof -
    from t [of exhausted_world]
    have "(\<forall>j<6. capacity (axios_post exhausted_world j (?rq j))) \<longrightarrow>
          snd (POST exhausted_world test_env (Parsed hello))
            = schedule exhausted_world test_scope test_candidates
          \<and> fst (POST exhausted_world test_env (Parsed hello))
            = make_response (Text (capacity_body test_scope test_candidates)) [] 429
          \<and> status (fst (POST exhausted_world test_env (Parsed hello))) = 429
          \<and> (\<forall>m\<in>set test_candidates.
                sublist (quote m) (capacity_body test_scope test_candidates))"
      by blast
    with all c show ?thesis by blast
  qed
  then have m: "map body_model (posted (snd (POST exhausted_world test_env (Parsed hello))))
       = [js ''mistral-large-latest'', js ''mistral-large-latest'',
          js ''mistral-medium-latest'', js ''mistral-medium-latest'',
          js ''mistral-small-latest'', js ''mistral-small-latest'']"
    by (simp add: schedule_list test_candidates_list request_for_def)
  have f0: "capacity (axios_post failing_world 0 (?rq 0))"
    and f1: "capacity (axios_post failing_world 1 (?rq 1))"
    and f2: "\<not> capacity (axios_post failing_world 2 (?rq 2))"
    by (simp_all add: failing_world_def scripted_nth capacity_samples)
  have f01: "\<forall>j<2. capacity (axios_post failing_world j (?rq j))"
  proof (intro allI impI)
    fix j :: nat assume "j < 2"
    then consider "j = 0" | "j = 1" by linarith
    then show "capacity (axios_post failing_world j (?rq j))"
      using f0 f1 by cases simp_all
  qed
  from t [of failing_world]
  have "\<forall>i<6. (\<forall>j<i. capacity (axios_post failing_world j (?rq j)))
            \<and> \<not> capacity (axios_post failing_world i (?rq i)) \<longrightarrow>
          snd (POST failing_world test_env (Parsed hello))
            = take (Suc i + Suc i div 2) (schedule failing_world test_scope test_candidates)"
    by blast
  from this [rule_format, of 2] f01 f2
  have f: "snd (POST failing_world test_env (Parsed hello))
       = take (Suc 2 + Suc 2 div 2) (schedule failing_world test_scope test_candidates)"
    by simp
  from all [rule_format, of 0] all [rule_format, of 1] all [rule_format, of 2]
    all [rule_format, of 3] all [rule_format, of 4] all [rule_format, of 5]
  have a6: "capacity (axios_post exhausted_world 0 (?rq 0))"
    "capacity (axios_post exhausted_world 1 (?rq 1))"
    "capacity (axios_post exhausted_world 2 (?rq 2))"
    "capacity (axios_post exhausted_world 3 (?rq 3))"
    "capacity (axios_post exhausted_world 4 (?rq 4))"
    "capacity (axios_post exhausted_world 5 (?rq 5))" by simp_all
  from test_key random_half s a6 e m c f0 f1 f2 f show ?thesis by simp
qed

subsection \<open>The model named by the success response\<close>

lemma fixed_headers_valid:
  "valid_header_value (normalize_value (js ''text/event-stream; charset=utf-8''))"
  "valid_header_value (normalize_value (js ''no-cache, no-transform''))"
  "valid_header_value (normalize_value (js ''keep-alive''))"
  "valid_header_value (normalize_value (js ''mistral-medium-latest''))"
  "valid_header_value (normalize_value (js ''mistral-small-latest''))"
  by (simp_all add: valid_header_value_def normalize_value_def http_ws_def js_def)

lemma success_response:
  assumes "success_stream res = Some web" and "header_safe (caPathUsed sc)"
    and "valid_header_value (normalize_value m)"
  shows "settle w sc m (Resolves res) = make_response (Stream web) (success_headers sc m) 200"
  using assms fixed_headers_valid(1-3)
  by (cases "caPathUsed sc")
     (simp_all add: settle_def attempt_result_def new_Response_def success_headers_def
        header_safe_def null_body_status_def)

lemma model_header:
  "header (make_response (Stream web) (success_headers sc m) 200) (js ''X-Model-Used'')
     = Some (normalize_value m)"
  by (simp add: header_def make_response_def success_headers_def js_def upper_def)

lemma fallback_names_normal:
  "normalize_value (js ''mistral-medium-latest'') = js ''mistral-medium-latest''"
  "normalize_value (js ''mistral-small-latest'') = js ''mistral-small-latest''"
  by (simp_all add: normalize_value_def http_ws_def js_def)

lemma success_not_capacity: "success_stream res = Some web \<Longrightarrow> \<not> capacity (Resolves res)"
  by (simp add: capacity_def)

text \<open>
  Claim C2, as the code has it. After capacity signals on both attempts of the preferred
  model and on the first attempt of the first fallback, the next call is the second
  attempt of the first fallback. When that call succeeds the response has status 200, its
  body is the stream of the upstream response, its header \<open>X-Model-Used\<close> is
  \<open>mistral-medium-latest\<close>, and four calls were made. The header names the second
  fallback, \<open>mistral-small-latest\<close>, when the fourth call signals capacity too and the
  fifth call, the first of the second fallback, succeeds.
\<close>

theorem fourth_request_is_first_fallback:
  assumes "MISTRAL_API_KEY e = Some k" and "k \<noteq> []"
    and "sc = scope_of e k p" and "cands = modelCandidates (preferModel p)"
    and "header_safe (caPathUsed sc)"
    and "capacity (axios_post w 0 (request_for sc (cands ! 0)))"
    and "capacity (axios_post w 1 (request_for sc (cands ! 0)))"
    and "capacity (axios_post w 2 (request_for sc (cands ! 1)))"
  shows
    "(\<forall>res web. axios_post w 3 (request_for sc (cands ! 1)) = Resolves res
         \<and> success_stream res = Some web \<longrightarrow>
        status (fst (POST w e (Parsed p))) = 200
        \<and> body (fst (POST w e (Parsed p))) = Stream web
        \<and> header (fst (POST w e (Parsed p))) (js ''X-Model-Used'')
            = Some (js ''mistral-medium-latest'')
        \<and> map body_model (posted (snd (POST w e (Parsed p))))
            = [preferModel p, preferModel p,
               js ''mistral-medium-latest'', js ''mistral-medium-latest''])
     \<and> (\<forall>res web. capacity (axios_post w 3 (request_for sc (cands ! 1)))
         \<and> axios_post w 4 (request_for sc (cands ! 2)) = Resolves res
         \<and> success_stream res = Some web \<longrightarrow>
        status (fst (POST w e (Parsed p))) = 200
        \<and> body (fst (POST w e (Parsed p))) = Stream web
        \<and> header (fst (POST w e (Parsed p))) (js ''X-Model-Used'')
            = Some (js ''mistral-small-latest'')
        \<and> map body_model (posted (snd (POST w e (Parsed p))))
            = [preferModel p, preferModel p,
               js ''mistral-medium-latest'', js ''mistral-medium-latest'',
               js ''mistral-small-latest''])"
proof -
  have c: "cands = [preferModel p, js ''mistral-medium-latest'', js ''mistral-small-latest'']"
    using assms(4) by (simp add: modelCandidates_def)
  have three: "\<forall>j<3. capacity (axios_post w j (request_for sc (cands ! (j div 2))))"
  proof (intro allI impI)
    fix j :: nat assume "j < 3"
    then consider "j = 0" | "j = 1" | "j = 2" by linarith
    then show "capacity (axios_post w j (request_for sc (cands ! (j div 2))))"
      using assms(6-8) by cases simp_all
  qed
  have a: "status (fst (POST w e (Parsed p))) = 200
        \<and> body (fst (POST w e (Parsed p))) = Stream web
        \<and> header (fst (POST w e (Parsed p))) (js ''X-Model-Used'')
            = Some (js ''mistral-medium-latest'')
        \<and> map body_model (posted (snd (POST w e (Parsed p))))
            = [preferModel p, preferModel p,
               js ''mistral-medium-latest'', js ''mistral-medium-latest'']"
    if r: "axios_post w 3 (request_for sc (cands ! 1)) = Resolves res"
      and ok: "success_stream res = Some web" for res web
  proof -
    have n: "\<not> capacity (axios_post w 3 (request_for sc (cands ! (3 div 2))))"
      using r ok by (simp add: success_not_capacity)
    have "POST w e (Parsed p)
        = (settle w sc (cands ! (3 div 2)) (axios_post w 3 (request_for sc (cands ! (3 div 2)))),
           take (Suc 3 + Suc 3 div 2) (schedule w sc cands))"
      using three n by (intro POST_at [OF assms(1-4)]) simp_all
    then have "POST w e (Parsed p)
        = (make_response (Stream web) (success_headers sc (js ''mistral-medium-latest'')) 200,
           take 6 (schedule w sc cands))"
      using r ok assms(5) by (simp add: c success_response fixed_headers_valid)
    then show ?thesis
      by (simp add: model_header fallback_names_normal schedule_list c)
         (simp add: make_response_def request_for_def)
  qed
  have b: "status (fst (POST w e (Parsed p))) = 200
        \<and> body (fst (POST w e (Parsed p))) = Stream web
        \<and> header (fst (POST w e (Parsed p))) (js ''X-Model-Used'')
            = Some (js ''mistral-small-latest'')
        \<and> map body_model (posted (snd (POST w e (Parsed p))))
            = [preferModel p, preferModel p,
               js ''mistral-medium-latest'', js ''mistral-medium-latest'',
               js ''mistral-small-latest'']"
    if f: "capacity (axios_post w 3 (request_for sc (cands ! 1)))"
      and r: "axios_post w 4 (request_for sc (cands ! 2)) = Resolves res"
      and ok: "success_stream res = Some web" for res web
  proof -
    have four: "\<forall>j<4. capacity (axios_post w j (request_for sc (cands ! (j div 2))))"
    proof (intro allI impI)
      fix j :: nat assume "j < 4"
      then consider "j < 3" | "j = 3" by linarith
      then show "capacity (axios_post w j (request_for sc (cands ! (j div 2))))"
        using three f by cases simp_all
    qed
    have n: "\<not> capacity (axios_post w 4 (request_for sc (cands ! (4 div 2))))"
      using r ok by (simp add: success_not_capacity)
    have "POST w e (Parsed p)
        = (settle w sc (cands ! (4 div 2)) (axios_post w 4 (request_for sc (cands ! (4 div 2)))),
           take (Suc 4 + Suc 4 div 2) (schedule w sc cands))"
      using four n by (intro POST_at [OF assms(1-4)]) simp_all
    then have "POST w e (Parsed p)
        = (make_response (Stream web) (success_headers sc (js ''mistral-small-latest'')) 200,
           take 7 (schedule w sc cands))"
      using r ok assms(5) by (simp add: c success_response fixed_headers_valid)
    then show ?thesis
      by (simp add: model_header fallback_names_normal schedule_list c)
         (simp add: make_response_def request_for_def)
  qed
  from a b show ?thesis by blast
qed

theorem fourth_request_is_first_fallback_witness:
  "MISTRAL_API_KEY test_env = Some (js ''test-key'') \<and> js ''test-key'' \<noteq> []
   \<and> header_safe (caPathUsed test_scope)
   \<and> capacity (axios_post fallback_world 0 (request_for test_scope (test_candidates ! 0)))
   \<and> capacity (axios_post fallback_world 1 (request_for test_scope (test_candidates ! 0)))
   \<and> capacity (axios_post fallback_world 2 (request_for test_scope (test_candidates ! 1)))
   \<and> axios_post fallback_world 3 (request_for test_scope (test_candidates ! 1))
       = Resolves \<lparr>up_status = 200, up_data = Some [js ''data: [DONE]'' @ [10]]\<rparr>
   \<and> success_stream \<lparr>up_status = 200, up_data = Some [js ''data: [DONE]'' @ [10]]\<rparr>
       = Some [js ''data: [DONE]'' @ [10]]
   \<and> status (fst (POST fallback_world test_env (Parsed hello))) = 200
   \<and> body (fst (POST fallback_world test_env (Parsed hello)))
       = Stream [js ''data: [DONE]'' @ [10]]
   \<and> header (fst (POST fallback_world test_env (Parsed hello))) (js ''X-Model-Used'')
       = Some (js ''mistral-medium-latest'')
   \<and> capacity (axios_post second_fallback_world 0 (request_for test_scope (test_candidates ! 0)))
   \<and> capacity (axios_post second_fallback_world 1 (request_for test_scope (test_candidates ! 0)))
   \<and> capacity (axios_post second_fallback_world 2 (request_for test_scope (test_candidates ! 1)))
   \<and> capacity (axios_post second_fallback_world 3 (request_for test_scope (test_candidates ! 1)))
   \<and> axios_post second_fallback_world 4 (request_for test_scope (test_candidates ! 2))
       = Resolves \<lparr>up_status = 200, up_data = Some [js ''data: [DONE]'' @ [10]]\<rparr>
   \<and> header (fst (POST second_fallback_world test_env (Parsed hello))) (js ''X-Model-Used'')
       = Some (js ''mistral-small-latest'')
   \<and> map body_model (posted (snd (POST second_fallback_world test_env (Parsed hello))))
       = [preferModel hello, preferModel hello,
          js ''mistral-medium-latest'', js ''mistral-medium-latest'',
          js ''mistral-small-latest'']"
proof -
  let ?res = "\<lparr>up_status = 200, up_data = Some [js ''data: [DONE]'' @ [10]]\<rparr>"
  have a: "capacity (axios_post fallback_world 0 (request_for test_scope (test_candidates ! 0)))"
    "capacity (axios_post fallback_world 1 (request_for test_scope (test_candidates ! 0)))"
    "capacity (axios_post fallback_world 2 (request_for test_scope (test_candidates ! 1)))"
    by (simp_all add: fallback_world_def scripted_nth capacity_samples)
  have a3: "axios_post fallback_world 3 (request_for test_scope (test_candidates ! 1))
      = Resolves ?res"
    by (simp add: fallback_world_def scripted_nth streamed_def)
  have b: "capacity (axios_post second_fallback_world 0 (request_for test_scope (test_candidates ! 0)))"
    "capacity (axios_post second_fallback_world 1 (request_for test_scope (test_candidates ! 0)))"
    "capacity (axios_post second_fallback_world 2 (request_for test_scope (test_candidates ! 1)))"
    "capacity (axios_post second_fallback_world 3 (request_for test_scope (test_candidates ! 1)))"
    by (simp_all add: second_fallback_world_def scripted_nth capacity_samples)
  have b4: "axios_post second_fallback_world 4 (request_for test_scope (test_candidates ! 2))
      = Resolves ?res"
    by (simp add: second_fallback_world_def scripted_nth streamed_def)
  have ok: "success_stream ?res = Some [js ''data: [DONE]'' @ [10]]"
    by (simp add: success_stream_def)
  note t1 = fourth_request_is_first_fallback
    [OF test_key test_scope_def test_candidates_def test_scope_ca a]
  note t2 = fourth_request_is_first_fallback
    [OF test_key test_scope_def test_candidates_def test_scope_ca b(1-3)]
  from t1 a3 ok have c1: "status (fst (POST fallback_world test_env (Parsed hello))) = 200
      \<and> body (fst (POST fallback_world test_env (Parsed hello)))
          = Stream [js ''data: [DONE]'' @ [10]]
      \<and> header (fst (POST fallback_world test_env (Parsed hello))) (js ''X-Model-Used'')
          = Some (js ''mistral-medium-latest'')"
    by blast
  from t2 b(4) b4 ok
  have c2: "header (fst (POST second_fallback_world test_env (Parsed hello))) (js ''X-Model-Used'')
        = Some (js ''mistral-small-latest'')
      \<and> map body_model (posted (snd (POST second_fallback_world test_env (Parsed hello))))
        = [preferModel hello, preferModel hello,
           js ''mistral-medium-latest'', js ''mistral-medium-latest'',
           js ''mistral-small-latest'']"
    by blast
  from test_key test_scope_ca a a3 ok c1 b b4 c2 show ?thesis by blast
qed

text \<open>
  The claim as it was stated fails on three responses with status 429 followed by a
  success: the fourth call asks for \<open>mistral-medium-latest\<close> again, and that is the
  model the header names.
\<close>

theorem second_fallback_header_counterexample:
  "capacity busy
   \<and> success_stream \<lparr>up_status = 200, up_data = Some [js ''data: [DONE]'' @ [10]]\<rparr>
       = Some [js ''data: [DONE]'' @ [10]]
   \<and> status (fst (POST (scripted [busy, busy, busy, streamed]) test_env (Parsed hello))) = 200
   \<and> map body_model
         (posted (snd (POST (scripted [busy, busy, busy, streamed]) test_env (Parsed hello))))
       = [js ''mistral-large-latest'', js ''mistral-large-latest'',
          js ''mistral-medium-latest'', js ''mistral-medium-latest'']
   \<and> header (fst (POST (scripted [busy, busy, busy, streamed]) test_env (Parsed hello)))
         (js ''X-Model-Used'') = Some (js ''mistral-medium-latest'')
   \<and> header (fst (POST (scripted [busy, busy, busy, streamed]) test_env (Parsed hello)))
         (js ''X-Model-Used'') \<noteq> Some (js ''mistral-small-latest'')"
  by (simp add: post_eval)

subsection \<open>Other upstream errors\<close>

lemma error_response:
  assumes "success_stream res = None" and "200 \<le> up_status res" and "up_status res \<le> 599"
    and "\<not> null_body_status (up_status res)"
  shows "settle w sc m (Resolves res)
     = make_response (Text (upstream_error_body sc m res)) [] (up_status res)"
  using assms by (simp add: settle_def attempt_result_def new_Response_def)

lemma posted_take:
  assumes "i < 6"
  shows "posted (take (Suc i + Suc i div 2) (schedule w sc cands))
     = take (Suc i)
         [request_for sc (cands ! 0), request_for sc (cands ! 0),
          request_for sc (cands ! 1), request_for sc (cands ! 1),
          request_for sc (cands ! 2), request_for sc (cands ! 2)]"
proof -
  from assms consider "i = 0" | "i = 1" | "i = 2" | "i = 3" | "i = 4" | "i = 5" by linarith
  then show ?thesis by cases (simp_all add: schedule_list)
qed

text \<open>
  Claim C3, as the code has it. When call \<open>i\<close> is the first whose outcome is not a
  capacity signal and it resolves to a response that is not a success, with a status from
  200 to 599 that may carry a body, the handler returns that status; the body is the text
  \<open>Upstream\<close>, the status, a colon, the upstream error body, a line feed and the JSON
  text of line 136; and no call is made after call \<open>i\<close>.
\<close>

theorem upstream_error_returned:
  assumes "MISTRAL_API_KEY e = Some k" and "k \<noteq> []"
    and "sc = scope_of e k p" and "cands = modelCandidates (preferModel p)"
    and "i < 6"
    and "\<forall>j<i. capacity (axios_post w j (request_for sc (cands ! (j div 2))))"
    and "axios_post w i (request_for sc (cands ! (i div 2))) = Resolves res"
    and "success_stream res = None" and "\<not> is429 res"
    and "200 \<le> up_status res" and "up_status res \<le> 599"
    and "\<not> null_body_status (up_status res)"
  shows
    "status (fst (POST w e (Parsed p))) = up_status res
     \<and> body (fst (POST w e (Parsed p)))
         = Text (js ''Upstream '' @ digits (up_status res) @ js '': '' @ errText res @ [10] @
             stringify (object
               [(''status'', Some (JNum (digits (up_status res)))),
                (''modelTried'', Some (JStr (cands ! (i div 2)))),
                (''caPathUsed'', map_option JStr (caPathUsed sc)),
                (''allowInsecure'', Some (JBool (allowInsecure sc)))]))
     \<and> posted (snd (POST w e (Parsed p)))
         = take (Suc i)
             [request_for sc (cands ! 0), request_for sc (cands ! 0),
              request_for sc (cands ! 1), request_for sc (cands ! 1),
              request_for sc (cands ! 2), request_for sc (cands ! 2)]"
proof -
  have n: "\<not> capacity (axios_post w i (request_for sc (cands ! (i div 2))))"
    using assms(7,9) by (simp add: capacity_def)
  have "POST w e (Parsed p)
      = (settle w sc (cands ! (i div 2)) (Resolves res),
         take (Suc i + Suc i div 2) (schedule w sc cands))"
    using POST_at [OF assms(1-6) n] assms(7) by simp
  then have "POST w e (Parsed p)
      = (make_response (Text (upstream_error_body sc (cands ! (i div 2)) res)) [] (up_status res),
         take (Suc i + Suc i div 2) (schedule w sc cands))"
    using assms(8,10-12) by (simp add: error_response)
  then have r: "fst (POST w e (Parsed p))
      = make_response (Text (upstream_error_body sc (cands ! (i div 2)) res)) [] (up_status res)"
    and t: "snd (POST w e (Parsed p)) = take (Suc i + Suc i div 2) (schedule w sc cands)"
    by simp_all
  have "posted (snd (POST w e (Parsed p)))
         = take (Suc i)
             [request_for sc (cands ! 0), request_for sc (cands ! 0),
              request_for sc (cands ! 1), request_for sc (cands ! 1),
              request_for sc (cands ! 2), request_for sc (cands ! 2)]"
    by (simp only: t posted_take [OF assms(5)])
  with r show ?thesis by (simp add: make_response_def upstream_error_body_def)
qed

theorem upstream_error_returned_witness:
  "MISTRAL_API_KEY test_env = Some (js ''test-key'') \<and> js ''test-key'' \<noteq> []
   \<and> (2::nat) < 6
   \<and> capacity (axios_post failing_world 0 (request_for test_scope (test_candidates ! (0 div 2))))
   \<and> capacity (axios_post failing_world 1 (request_for test_scope (test_candidates ! (1 div 2))))
   \<and> axios_post failing_world 2 (request_for test_scope (test_candidates ! (2 div 2)))
       = Resolves \<lparr>up_status = 400, up_data = Some [js ''bad request'']\<rparr>
   \<and> success_stream \<lparr>up_status = 400, up_data = Some [js ''bad request'']\<rparr> = None
   \<and> \<not> is429 \<lparr>up_status = 400, up_data = Some [js ''bad request'']\<rparr>
   \<and> 200 \<le> up_status \<lparr>up_status = 400, up_data = Some [js ''bad request'']\<rparr>
   \<and> up_status \<lparr>up_status = 400, up_data = Some [js ''bad request'']\<rparr> \<le> 599
   \<and> \<not> null_body_status (up_status \<lparr>up_status = 400, up_data = Some [js ''bad request'']\<rparr>)
   \<and> status (fst (POST failing_world test_env (Parsed hello))) = 400
   \<and> posted (snd (POST failing_world test_env (Parsed hello)))
       = [request_for test_scope (js ''mistral-large-latest''),
          request_for test_scope (js ''mistral-large-latest''),
          request_for test_scope (js ''mistral-medium-latest'')]"
proof -
  let ?res = "\<lparr>up_status = 400, up_data = Some [js ''bad request'']\<rparr>"
  let ?rq = "\<lambda>j. request_for test_scope (test_candidates ! (j div 2))"
  have f0: "capacity (axios_post failing_world 0 (?rq 0))"
    and f1: "capacity (axios_post failing_world 1 (?rq 1))"
    by (simp_all add: failing_world_def scripted_nth capacity_samples)
  have f01: "\<forall>j<2. capacity (axios_post failing_world j (?rq j))"
  proof (intro allI impI)
    fix j :: nat assume "j < 2"
    then consider "j = 0" | "j = 1" by linarith
    then show "capacity (axios_post failing_world j (?rq j))"
      using f0 f1 by cases simp_all
  qed
  have f2: "axios_post failing_world 2 (?rq 2) = Resolves ?res"
    by (simp add: failing_world_def scripted_nth bad_request_def)
  have h: "success_stream ?res = None" "\<not> is429 ?res" "200 \<le> up_status ?res"
    "up_status ?res \<le> 599" "\<not> null_body_status (up_status ?res)"
    by (simp_all add: success_stream_def is429_def errText_def null_body_status_def
        js_def upper_def)
  have i: "(2::nat) < 6" by simp
  note t = upstream_error_returned [OF test_key test_scope_def test_candidates_def i f01 f2 h]
  from t have c: "status (fst (POST failing_world test_env (Parsed hello))) = 400
      \<and> posted (snd (POST failing_world test_env (Parsed hello)))
       = [request_for test_scope (js ''mistral-large-latest''),
          request_for test_scope (js ''mistral-large-latest''),
          request_for test_scope (js ''mistral-medium-latest'')]"
    by (simp add: test_candidates_list)
  from test_key i f0 f1 f2 h c show ?thesis by blast
qed

text \<open>
  The claim as it was stated fails on a response with status 400 and body
  \<open>bad request\<close>: the status is returned, and the body of the response is not the
  upstream error body but the text of line 137 around it.
\<close>

theorem upstream_body_wrapped_counterexample:
  \<open>success_stream \<lparr>up_status = 400, up_data = Some [js ''bad request'']\<rparr> = None
   \<and> \<not> is429 \<lparr>up_status = 400, up_data = Some [js ''bad request'']\<rparr>
   \<and> errText \<lparr>up_status = 400, up_data = Some [js ''bad request'']\<rparr> = js ''bad request''
   \<and> status (fst (POST (scripted [bad_request]) test_env (Parsed hello))) = 400
   \<and> body (fst (POST (scripted [bad_request]) test_env (Parsed hello)))
       = Text (js ''Upstream 400: bad request'' @ [10] @
           js ''{"status":400,"modelTried":"mistral-large-latest","allowInsecure":false}'')
   \<and> body (fst (POST (scripted [bad_request]) test_env (Parsed hello)))
       \<noteq> Text (js ''bad request'')\<close>
  by (simp add: post_eval)

subsection \<open>Placeholders\<close>

lemma trim_empty_iff: "trim s = [] \<longleftrightarrow> list_all is_ws s"
proof
  assume "trim s = []"
  then have "dropWhile is_ws (rev (dropWhile is_ws s)) = []" by (simp add: trim_def)
  then have "\<forall>x\<in>set (dropWhile is_ws s). is_ws x" by (simp add: dropWhile_eq_Nil_conv)
  then have "dropWhile is_ws s = []"
    by (metis hd_dropWhile list.set_sel(1))
  then show "list_all is_ws s" by (simp add: dropWhile_eq_Nil_conv list_all_iff)
next
  assume "list_all is_ws s"
  then show "trim s = []" by (auto simp: trim_def list_all_iff dest: set_dropWhileD)
qed

lemma trim_Nil: "trim [] = []"
  by (simp add: trim_def)

lemma is_placeholder_iff: "is_placeholder m = empty_assistant m"
  by (cases "msg_content m"; cases "tool_calls m")
     (auto simp: is_placeholder_def empty_assistant_def trim_empty_iff)

lemma posted_requests:
  assumes "Posted r \<in> set (snd (POST w e req))"
  shows "\<exists>p. req = Parsed p \<and> body_messages r = filter_messages (payload_messages p)"
proof (cases req)
  case (BadJson err)
  with assms show ?thesis by (simp add: POST_def split: option.splits if_splits)
next
  case (Parsed p)
  with assms obtain k where k: "MISTRAL_API_KEY e = Some k" "k \<noteq> []"
    by (auto simp: POST_def split: option.splits if_splits)
  from assms have "Posted r \<in> set (schedule w (scope_of e k p) (modelCandidates (preferModel p)))"
    unfolding Parsed POST_parsed [OF k] try_block_run Let_def
    by (auto dest: in_set_takeD)
  then have "body_messages r = kept (scope_of e k p)"
    by (auto simp: schedule_list request_for_def)
  with Parsed show ?thesis by (simp add: scope_of_def)
qed

text \<open>
  Claim C4. Every request the handler posts carries exactly the incoming messages that
  are not assistant messages with absent, empty or white-space content and no tool call,
  in their order; so when the incoming conversation ends in the placeholder,
  the placeholder is not among the messages posted. The request the page fetches carries
  the messages of the page that are not assistant messages with empty or white-space
  content, followed by the new user message, and not the placeholder it has just added.
\<close>

theorem placeholders_not_submitted:
  "(\<forall>r. Posted r \<in> set (snd (POST w e req)) \<longrightarrow>
      (\<forall>m\<in>set (body_messages r). \<not> empty_assistant m)
      \<and> (\<exists>p. req = Parsed p
            \<and> body_messages r
                = filter (\<lambda>m. \<not> empty_assistant m)
                    (case payload_messages p of None \<Rightarrow> [] | Some ms \<Rightarrow> ms))
      \<and> (\<forall>p ms. req = Parsed p \<and> payload_messages p
            = Some (ms @ [\<lparr>msg_role = js ''assistant'', msg_content = Some [], tool_calls = None\<rparr>])
          \<longrightarrow> \<lparr>msg_role = js ''assistant'', msg_content = Some [], tool_calls = None\<rparr>
                \<notin> set (body_messages r)
              \<and> body_messages r = filter (\<lambda>m. \<not> empty_assistant m) ms))
   \<and> (\<forall>r. Fetched r \<in> set (snd (snd (send b st))) \<longrightarrow>
      (\<forall>m\<in>set (fetch_messages r). \<not> blank_assistant m)
      \<and> fetch_messages r
          = filter (\<lambda>m. \<not> blank_assistant m) (messages st)
            @ [\<lparr>role = User, content = input st\<rparr>])"
proof -
  have server: "(\<forall>m\<in>set (body_messages r). \<not> empty_assistant m)
      \<and> (\<exists>p. req = Parsed p
            \<and> body_messages r
                = filter (\<lambda>m. \<not> empty_assistant m)
                    (case payload_messages p of None \<Rightarrow> [] | Some ms \<Rightarrow> ms))
      \<and> (\<forall>p ms. req = Parsed p \<and> payload_messages p
            = Some (ms @ [\<lparr>msg_role = js ''assistant'', msg_content = Some [], tool_calls = None\<rparr>])
          \<longrightarrow> \<lparr>msg_role = js ''assistant'', msg_content = Some [], tool_calls = None\<rparr>
                \<notin> set (body_messages r)
              \<and> body_messages r = filter (\<lambda>m. \<not> empty_assistant m) ms)"
    if "Posted r \<in> set (snd (POST w e req))" for r
  proof -
    from posted_requests [OF that] obtain p where
      p: "req = Parsed p" and b: "body_messages r = filter_messages (payload_messages p)"
      by blast
    have f: "body_messages r = filter (\<lambda>m. \<not> empty_assistant m)
        (case payload_messages p of None \<Rightarrow> [] | Some ms \<Rightarrow> ms)"
      by (simp add: b filter_messages_def is_placeholder_iff split: option.splits)
    have e: "empty_assistant \<lparr>msg_role = js ''assistant'', msg_content = Some [], tool_calls = None\<rparr>"
      by (simp add: empty_assistant_def)
    from f p e show ?thesis by auto
  qed
  have client: "(\<forall>m\<in>set (fetch_messages r). \<not> blank_assistant m)
      \<and> fetch_messages r
          = filter (\<lambda>m. \<not> blank_assistant m) (messages st)
            @ [\<lparr>role = User, content = input st\<rparr>]"
    if "Fetched r \<in> set (snd (snd (send b st)))" for r
  proof -
    have fx: "Fetched r \<notin> set (snd (snd (stream_phase num buf s reads)))" for num buf s reads
      by (auto simp: stream_phase_def finally_block_def
          split: prod.splits loop_exit.splits option.splits)
    then have fx': "Fetched r \<notin> set z" if "stream_phase num buf s reads = (x, y, z)"
      for num buf s reads x y z
      using that by (metis snd_conv)
    from that have "trim (input st) \<noteq> [] \<and> fetch_messages r
        = filter (\<lambda>m. \<not> (role m = Assistant \<and> trim (content m) = []))
            (messages st @ [\<lparr>role = User, content = input st\<rparr>, \<lparr>role = Assistant, content = []\<rparr>])"
      by (auto simp: send_def Let_def trim_Nil dest: fx'
          split: if_splits fetch_result.splits option.splits prod.splits)
    then show ?thesis
      by (auto simp: blank_assistant_def trim_empty_iff trim_Nil)
  qed
  from server client show ?thesis by blast
qed

theorem placeholders_not_submitted_witness:
  "Posted (request_for test_scope (js ''mistral-large-latest''))
     \<in> set (snd (POST failing_world test_env (Parsed hello)))
   \<and> payload_messages hello
       = Some ([\<lparr>msg_role = js ''user'', msg_content = Some (js ''Hello''), tool_calls = None\<rparr>]
               @ [\<lparr>msg_role = js ''assistant'', msg_content = Some [], tool_calls = None\<rparr>])
   \<and> \<lparr>msg_role = js ''assistant'', msg_content = Some [], tool_calls = None\<rparr>
       \<notin> set (body_messages (request_for test_scope (js ''mistral-large-latest'')))
   \<and> body_messages (request_for test_scope (js ''mistral-large-latest''))
       = [\<lparr>msg_role = js ''user'', msg_content = Some (js ''Hello''), tool_calls = None\<rparr>]
   \<and> Fetched retry_request \<in> set (snd (snd (send (streaming_browser [Done]) stopped_page)))
   \<and> messages stopped_page
       = [\<lparr>role = User, content = js ''hi''\<rparr>, \<lparr>role = Assistant, content = []\<rparr>]
   \<and> fetch_messages retry_request
       = [\<lparr>role = User, content = js ''hi''\<rparr>, \<lparr>role = User, content = input stopped_page\<rparr>]"
proof -
  let ?r = "request_for test_scope (js ''mistral-large-latest'')"
  let ?u = "\<lparr>msg_role = js ''user'', msg_content = Some (js ''Hello''), tool_calls = None\<rparr>"
  let ?a = "\<lparr>msg_role = js ''assistant'', msg_content = Some [], tool_calls = None\<rparr>"
  note t = placeholders_not_submitted
    [of failing_world test_env "Parsed hello" "streaming_browser [Done]" stopped_page]
  have h: "payload_messages hello = Some ([?u] @ [?a])"
    by (simp add: hello_def)
  have u: "\<not> empty_assistant ?u"
    by (simp add: empty_assistant_def js_def)
  from t failing_world_posts
  have "\<forall>p ms. Parsed hello = Parsed p \<and> payload_messages p = Some (ms @ [?a])
      \<longrightarrow> ?a \<notin> set (body_messages ?r)
          \<and> body_messages ?r = filter (\<lambda>m. \<not> empty_assistant m) ms"
    by blast
  from this [rule_format, of hello "[?u]"] h
  have s0: "?a \<notin> set (body_messages ?r)
      \<and> body_messages ?r = filter (\<lambda>m. \<not> empty_assistant m) [?u]"
    by blast
  have fl: "filter (\<lambda>m. \<not> empty_assistant m) [?u] = [?u]"
    using u by simp
  note s = s0 [unfolded fl]
  from t stopped_page_fetches
  have "fetch_messages retry_request
      = filter (\<lambda>m. \<not> blank_assistant m) (messages stopped_page)
        @ [\<lparr>role = User, content = input stopped_page\<rparr>]"
    by blast
  then have c: "fetch_messages retry_request
      = [\<lparr>role = User, content = js ''hi''\<rparr>, \<lparr>role = User, content = input stopped_page\<rparr>]"
    by (simp add: stopped_page_def blank_assistant_def trim_def is_ws_def js_def)
  have m: "messages stopped_page
       = [\<lparr>role = User, content = js ''hi''\<rparr>, \<lparr>role = Assistant, content = []\<rparr>]"
    by (simp add: stopped_page_def)
  from failing_world_posts h s stopped_page_fetches m c show ?thesis by blast
qed

end
